theory Spec2Isabelle
  imports Main "HOL-Library.Char_ord" "HOL-Library.List_Lexorder" "HOL-Library.Multiset"
begin

section \<open>Values decoded from a transcript line\<close>

text \<open>
  \<^verbatim>\<open>tools/transcript_to_markdown.py\<close> works on what \<^verbatim>\<open>json.loads\<close> returns: \<^verbatim>\<open>None\<close>,
  \<^verbatim>\<open>bool\<close>, \<^verbatim>\<open>int\<close>, \<^verbatim>\<open>float\<close>, \<^verbatim>\<open>str\<close>, \<^verbatim>\<open>list\<close> and \<^verbatim>\<open>dict\<close> with string keys.
  A float is carried by the text Python's \<^verbatim>\<open>repr\<close> prints for it (the script only ever tests a
  float for truth and prints it). A dict is the list of its items in insertion order; its
  keys are distinct. Text is modelled on ASCII: the string methods below are Python's on
  characters below 128.
\<close>

datatype json =
    JNull
  | JBool bool
  | JInt int
  | JFloat string
  | JStr string
  | JArr "json list"
  | JObj "(string \<times> json) list"

datatype py_error =
    JSONDecodeError string
  | AttributeError
  | TypeError
  | OtherError string

text \<open>
  The library functions the script calls and does not define: \<^verbatim>\<open>json.loads\<close> (which raises
  \<^verbatim>\<open>JSONDecodeError\<close> with a message, or something else such as \<^verbatim>\<open>RecursionError\<close>),
  \<^verbatim>\<open>json.dumps(_, ensure_ascii=False, indent=2)\<close>, and \<^verbatim>\<open>str\<close> on a list or a dict.
\<close>

record pylib =
  loads :: "string \<Rightarrow> py_error + json"
  dumps :: "json \<Rightarrow> string"
  repr_container :: "json \<Rightarrow> string"

record options =
  include_thinking :: bool
  include_tools :: bool
  only_tools :: "string set"
  excluded_tools :: "string set"

subsection \<open>Python's dict and truth-value operations\<close>

definition dict_get :: "(string \<times> json) list \<Rightarrow> string \<Rightarrow> json" where
  "dict_get kvs k = (case map_of kvs k of None \<Rightarrow> JNull | Some v \<Rightarrow> v)"

definition dict_get_default :: "(string \<times> json) list \<Rightarrow> string \<Rightarrow> json \<Rightarrow> json" where
  "dict_get_default kvs k d = (case map_of kvs k of None \<Rightarrow> d | Some v \<Rightarrow> v)"

fun truthy :: "json \<Rightarrow> bool" where
  "truthy JNull = False"
| "truthy (JBool b) = b"
| "truthy (JInt n) = (n \<noteq> 0)"
| "truthy (JFloat r) = (r \<noteq> ''0.0'' \<and> r \<noteq> ''-0.0'')"
| "truthy (JStr s) = (s \<noteq> [])"
| "truthy (JArr xs) = (xs \<noteq> [])"
| "truthy (JObj kvs) = (kvs \<noteq> [])"

definition py_or :: "json \<Rightarrow> json \<Rightarrow> json" where
  "py_or a b = (if truthy a then a else b)"

fun str_of :: "json \<Rightarrow> string option" where
  "str_of (JStr s) = Some s"
| "str_of _ = None"

fun nonempty_str :: "json \<Rightarrow> string option" where
  "nonempty_str (JStr s) = (if s \<noteq> [] then Some s else None)"
| "nonempty_str _ = None"

subsection \<open>Python's string operations\<close>

definition NL :: string where
  "NL = [CHR 0x0A]"

definition isspace :: "char \<Rightarrow> bool" where
  "isspace c = (let n = of_char c :: nat in (9 \<le> n \<and> n \<le> 13) \<or> (28 \<le> n \<and> n \<le> 32))"

definition strip :: "string \<Rightarrow> string" where
  "strip s = rev (dropWhile isspace (rev (dropWhile isspace s)))"

definition lower_char :: "char \<Rightarrow> char" where
  "lower_char c = (let n = of_char c :: nat in if 65 \<le> n \<and> n \<le> 90 then char_of (n + 32) else c)"

definition upper_char :: "char \<Rightarrow> char" where
  "upper_char c = (let n = of_char c :: nat in if 97 \<le> n \<and> n \<le> 122 then char_of (n - 32) else c)"

definition lower :: "string \<Rightarrow> string" where
  "lower s = map lower_char s"

fun capitalize :: "string \<Rightarrow> string" where
  "capitalize [] = []"
| "capitalize (c # cs) = upper_char c # map lower_char cs"

fun join :: "string \<Rightarrow> string list \<Rightarrow> string" where
  "join sep [] = []"
| "join sep [x] = x"
| "join sep (x # y # ys) = x @ sep @ join sep (y # ys)"

definition startswith :: "string \<Rightarrow> string \<Rightarrow> bool" where
  "startswith s p = (take (length p) s = p)"

definition digit_char :: "nat \<Rightarrow> char" where
  "digit_char d = ''0123456789'' ! d"

fun str_nat :: "nat \<Rightarrow> string" where
  "str_nat n = (if n < 10 then [digit_char n] else str_nat (n div 10) @ [digit_char (n mod 10)])"

definition str_int :: "int \<Rightarrow> string" where
  "str_int i = (if i < 0 then CHR ''-'' # str_nat (nat (- i)) else str_nat (nat i))"

fun py_str :: "pylib \<Rightarrow> json \<Rightarrow> string" where
  "py_str L JNull = ''None''"
| "py_str L (JBool b) = (if b then ''True'' else ''False'')"
| "py_str L (JInt n) = str_int n"
| "py_str L (JFloat r) = r"
| "py_str L (JStr s) = s"
| "py_str L v = repr_container L v"

section \<open>Content normalisation\<close>

definition normalize_role :: "json \<Rightarrow> string \<Rightarrow> py_error + string" where
  "normalize_role raw_role fallback =
     (case py_or raw_role (py_or (JStr fallback) (JStr ''unknown'')) of
        JStr chosen \<Rightarrow>
          (let role = lower (strip chosen) in
           if role = ''assistant'' then Inr ''Assistant''
           else if role = ''user'' then Inr ''User''
           else if role = ''system'' then Inr ''System''
           else Inr (if capitalize role \<noteq> [] then capitalize role else ''Unknown''))
      | _ \<Rightarrow> Inl AttributeError)"

function coerce_text :: "pylib \<Rightarrow> json \<Rightarrow> string" where
  "coerce_text L JNull = []"
| "coerce_text L (JStr s) = s"
| "coerce_text L (JArr vs) =
     join NL (filter (\<lambda>chunk. strip chunk \<noteq> []) (map (coerce_text L) vs))"
| "coerce_text L (JObj kvs) =
     (case str_of (dict_get kvs ''text'') of
        Some t \<Rightarrow> t
      | None \<Rightarrow>
        (case map_of kvs ''content'' of
           Some c \<Rightarrow> coerce_text L c
         | None \<Rightarrow> dumps L (JObj kvs)))"
| "coerce_text L (JBool b) = py_str L (JBool b)"
| "coerce_text L (JInt n) = py_str L (JInt n)"
| "coerce_text L (JFloat r) = py_str L (JFloat r)"
  by pat_completeness auto

lemma size_map_of_le:
  "map_of kvs k = Some v \<Longrightarrow> size v \<le> size_list (size_prod (\<lambda>_. 0) size) kvs"
  by (induction kvs) (auto split: if_splits)

termination coerce_text
  by (relation "measure (\<lambda>(L, v). size v)")
    (auto simp: size_map_of_le less_Suc_eq_le size_list_estimation')

definition normalize_tool_name :: "string \<Rightarrow> string" where
  "normalize_tool_name name =
     (let normalized = strip name in
      if startswith (lower normalized) ''tool:'' then drop 5 normalized else normalized)"

subsection \<open>The tool correlation sets and one message's body\<close>

record tool_ids =
  excluded_ids :: "string set"
  included_ids :: "string set"

definition add_id :: "json \<Rightarrow> string set \<Rightarrow> string set" where
  \<comment> \<open>\<^verbatim>\<open>if isinstance(v, str) and v: ids.add(v)\<close>\<close>
  "add_id v ids = (case nonempty_str v of Some t \<Rightarrow> insert t ids | None \<Rightarrow> ids)"

definition append_text :: "string list \<Rightarrow> string \<Rightarrow> string list" where
  \<comment> \<open>\<^verbatim>\<open>if text: parts.append(text)\<close>\<close>
  "append_text parts text = (if text \<noteq> [] then parts @ [text] else parts)"

definition fence :: "string \<Rightarrow> string \<Rightarrow> string" where
  "fence label text = ''```'' @ label @ NL @ text @ NL @ ''```''"

definition tool_use_item ::
  "pylib \<Rightarrow> options \<Rightarrow> string list \<times> tool_ids \<Rightarrow> (string \<times> json) list \<Rightarrow> string list \<times> tool_ids"
where
  "tool_use_item L cfg st item =
     (let (parts, ids) = st;
          raw_name = py_str L (dict_get_default item ''name'' (JStr ''unknown_tool''));
          name = normalize_tool_name raw_name;
          tool_use_id = dict_get item ''id''
      in if only_tools cfg \<noteq> {} \<and> name \<notin> only_tools cfg
           then (parts, ids\<lparr>excluded_ids := add_id tool_use_id (excluded_ids ids)\<rparr>)
         else if name \<in> excluded_tools cfg
           then (parts, ids\<lparr>excluded_ids := add_id tool_use_id (excluded_ids ids)\<rparr>)
         else (parts @ [fence (''tool:'' @ name) (dumps L (dict_get item ''input''))],
               ids\<lparr>included_ids := add_id tool_use_id (included_ids ids)\<rparr>))"

definition tool_result_item ::
  "pylib \<Rightarrow> options \<Rightarrow> string list \<times> tool_ids \<Rightarrow> (string \<times> json) list \<Rightarrow> string list \<times> tool_ids"
where
  "tool_result_item L cfg st item =
     (let (parts, ids) = st;
          tool_use_id = dict_get item ''tool_use_id''
      in if (case str_of tool_use_id of Some t \<Rightarrow> t \<in> excluded_ids ids | None \<Rightarrow> False)
           then (parts, ids)
         else if only_tools cfg \<noteq> {} \<and>
                 (case str_of tool_use_id of Some t \<Rightarrow> t \<notin> included_ids ids | None \<Rightarrow> True)
           then (parts, ids)
         else (let result = strip (coerce_text L (dict_get item ''content''))
               in if result \<noteq> [] then (parts @ [fence ''tool_result'' result], ids)
                  else (parts, ids)))"

text \<open>One pass of the \<^verbatim>\<open>for item in content\<close> loop of \<^verbatim>\<open>extract_body\<close>.\<close>

definition extract_item ::
  "pylib \<Rightarrow> options \<Rightarrow> string list \<times> tool_ids \<Rightarrow> json \<Rightarrow> string list \<times> tool_ids"
where
  "extract_item L cfg st item =
     (case item of
        JObj kvs \<Rightarrow>
          (let item_type = dict_get kvs ''type'' in
           if item_type = JStr ''text''
             then (append_text (fst st) (strip (coerce_text L (dict_get kvs ''text''))), snd st)
           else if item_type = JStr ''thinking''
             then (if include_thinking cfg
                   then (let thinking = strip (coerce_text L (dict_get kvs ''thinking''))
                         in if thinking \<noteq> [] then (fst st @ [fence ''thinking'' thinking], snd st)
                            else st)
                   else st)
           else if item_type = JStr ''tool_use''
             then (if include_tools cfg then tool_use_item L cfg st kvs else st)
           else if item_type = JStr ''tool_result''
             then (if include_tools cfg then tool_result_item L cfg st kvs else st)
           else (append_text (fst st) (strip (coerce_text L item)), snd st))
      | _ \<Rightarrow> (append_text (fst st) (strip (coerce_text L item)), snd st))"

definition extract_body :: "pylib \<Rightarrow> options \<Rightarrow> json \<Rightarrow> tool_ids \<Rightarrow> string \<times> tool_ids" where
  "extract_body L cfg content ids =
     (case content of
        JStr s \<Rightarrow> (strip s, ids)
      | JArr items \<Rightarrow>
          (let (parts, ids') = foldl (extract_item L cfg) ([], ids) items
           in (strip (join (NL @ NL) parts), ids'))
      | _ \<Rightarrow> (strip (coerce_text L content), ids))"

section \<open>The event stream parser\<close>

record turn =
  index :: nat
  role :: string
  timestamp :: json
  body :: string

text \<open>
  The local variables of \<^verbatim>\<open>iter_turns\<close>. The first eleven make the \<^verbatim>\<open>ParseResult\<close> it
  returns; \<open>stderr\<close> is what it has printed to \<^verbatim>\<open>sys.stderr\<close>.
\<close>

record run_state =
  turns :: "turn list"
  first_timestamp :: "string option"
  last_timestamp :: "string option"
  session_ids :: "string set"
  models :: "string set"
  versions :: "string set"
  cwd_values :: "string set"
  branches :: "string set"
  role_counts :: "string \<rightharpoonup> nat"
  usage_counts :: "string \<rightharpoonup> int"
  usage_records :: nat
  tool_use_ids :: tool_ids
  stderr :: "string list"

definition initial_state :: run_state where
  "initial_state =
     \<lparr>turns = [], first_timestamp = None, last_timestamp = None, session_ids = {},
      models = {}, versions = {}, cwd_values = {}, branches = {},
      role_counts = Map.empty, usage_counts = Map.empty, usage_records = 0,
      tool_use_ids = \<lparr>excluded_ids = {}, included_ids = {}\<rparr>, stderr = []\<rparr>"

definition next_prefix :: "string \<Rightarrow> string \<Rightarrow> string" where
  \<comment> \<open>\<^verbatim>\<open>f"{prefix}.{key}" if prefix else str(key)\<close>\<close>
  "next_prefix prefix key = (if prefix \<noteq> [] then prefix @ ''.'' @ key else key)"

fun add_usage :: "string \<Rightarrow> json \<Rightarrow> (string \<rightharpoonup> int) \<Rightarrow> (string \<rightharpoonup> int)"
  and add_usage_items :: "string \<Rightarrow> (string \<times> json) list \<Rightarrow> (string \<rightharpoonup> int) \<Rightarrow> (string \<rightharpoonup> int)"
where
  "add_usage prefix (JObj kvs) uc = add_usage_items prefix kvs uc"
| "add_usage prefix (JBool b) uc = uc"
| "add_usage prefix (JInt n) uc = uc(prefix \<mapsto> (case uc prefix of None \<Rightarrow> 0 | Some c \<Rightarrow> c) + n)"
| "add_usage prefix JNull uc = uc"
| "add_usage prefix (JFloat r) uc = uc"
| "add_usage prefix (JStr s) uc = uc"
| "add_usage prefix (JArr vs) uc = uc"
| "add_usage_items prefix [] uc = uc"
| "add_usage_items prefix ((key, nested) # rest) uc =
     add_usage_items prefix rest (add_usage (next_prefix prefix key) nested uc)"

definition track_timestamp :: "json \<Rightarrow> run_state \<Rightarrow> run_state" where
  "track_timestamp event_timestamp st =
     (case str_of event_timestamp of
        Some ts \<Rightarrow>
          st\<lparr>first_timestamp :=
                (case first_timestamp st of
                   None \<Rightarrow> Some ts
                 | Some f \<Rightarrow> if ts < f then Some ts else Some f),
             last_timestamp :=
                (case last_timestamp st of
                   None \<Rightarrow> Some ts
                 | Some l \<Rightarrow> if ts > l then Some ts else Some l)\<rparr>
      | None \<Rightarrow> st)"

definition collect_event_fields :: "(string \<times> json) list \<Rightarrow> run_state \<Rightarrow> run_state" where
  "collect_event_fields event st =
     st\<lparr>session_ids := add_id (dict_get event ''sessionId'') (session_ids st),
        versions := add_id (dict_get event ''version'') (versions st),
        cwd_values := add_id (dict_get event ''cwd'') (cwd_values st),
        branches := add_id (dict_get event ''gitBranch'') (branches st)\<rparr>"

definition collect_usage :: "json \<Rightarrow> run_state \<Rightarrow> run_state" where
  "collect_usage usage st =
     (case usage of
        JObj kvs \<Rightarrow>
          st\<lparr>usage_records := usage_records st + 1,
             usage_counts := add_usage [] usage (usage_counts st)\<rparr>
      | _ \<Rightarrow> st)"

text \<open>Lines 289 to 293: count the role and append the turn.\<close>

definition emit_turn :: "run_state \<Rightarrow> string \<Rightarrow> json \<Rightarrow> string \<Rightarrow> run_state" where
  "emit_turn st r ts b =
     st\<lparr>role_counts := (role_counts st)(r \<mapsto> (case role_counts st r of None \<Rightarrow> 0 | Some c \<Rightarrow> c) + 1),
        turns := turns st @ [\<lparr>index = length (turns st) + 1, role = r, timestamp = ts, body = b\<rparr>]\<rparr>"

text \<open>Lines 264 to 293: a \<^verbatim>\<open>user\<close> or \<^verbatim>\<open>assistant\<close> event whose type is \<open>event_type\<close>.\<close>

definition process_message ::
  "pylib \<Rightarrow> options \<Rightarrow> run_state \<Rightarrow> (string \<times> json) list \<Rightarrow> string \<Rightarrow> py_error + run_state"
where
  "process_message L cfg st event event_type =
     (case dict_get event ''message'' of
        JObj message \<Rightarrow>
          (let st1 = st\<lparr>models := add_id (dict_get message ''model'') (models st)\<rparr>;
               st2 = collect_usage (dict_get message ''usage'') st1
           in case normalize_role (dict_get message ''role'') event_type of
                Inl err \<Rightarrow> Inl err
              | Inr r \<Rightarrow>
                  (let (b, ids) = extract_body L cfg (dict_get message ''content'') (tool_use_ids st2);
                       st3 = st2\<lparr>tool_use_ids := ids\<rparr>
                   in if b = [] then Inr st3
                      else Inr (emit_turn st3 r
                                  (py_or (dict_get event ''timestamp'') (dict_get message ''timestamp''))
                                  b)))
      | _ \<Rightarrow> Inr st)"

text \<open>
  Lines 240 to 293, for the value \<^verbatim>\<open>json.loads\<close> returned. \<^verbatim>\<open>event.get\<close> exists only on a
  dict, and the set membership test hashes the event's type, which a list or a dict
  refuses.
\<close>

definition process_event :: "pylib \<Rightarrow> options \<Rightarrow> run_state \<Rightarrow> json \<Rightarrow> py_error + run_state" where
  "process_event L cfg st ev =
     (case ev of
        JObj event \<Rightarrow>
          (let st1 = track_timestamp (dict_get event ''timestamp'') st;
               st2 = collect_event_fields event st1
           in case dict_get event ''type'' of
                JArr _ \<Rightarrow> Inl TypeError
              | JObj _ \<Rightarrow> Inl TypeError
              | JStr event_type \<Rightarrow>
                  if event_type \<noteq> ''user'' \<and> event_type \<noteq> ''assistant'' then Inr st2
                  else process_message L cfg st2 event event_type
              | _ \<Rightarrow> Inr st2)
      | _ \<Rightarrow> Inl AttributeError)"

definition skip_message :: "nat \<Rightarrow> string \<Rightarrow> string" where
  "skip_message line_no exc = ''Skipping invalid JSON line '' @ str_nat line_no @ '': '' @ exc"

definition process_line ::
  "pylib \<Rightarrow> options \<Rightarrow> run_state \<Rightarrow> nat \<Rightarrow> string \<Rightarrow> py_error + run_state"
where
  "process_line L cfg st line_no line =
     (let raw = strip line in
      if raw = [] then Inr st
      else case loads L raw of
             Inl (JSONDecodeError exc) \<Rightarrow> Inr (st\<lparr>stderr := stderr st @ [skip_message line_no exc]\<rparr>)
           | Inl err \<Rightarrow> Inl err
           | Inr ev \<Rightarrow> process_event L cfg st ev)"

text \<open>The loop \<^verbatim>\<open>for line_no, line in enumerate(handle, 1)\<close>, from line number \<open>line_no\<close> on.\<close>

fun iter_lines ::
  "pylib \<Rightarrow> options \<Rightarrow> run_state \<Rightarrow> nat \<Rightarrow> string list \<Rightarrow> py_error + run_state"
where
  "iter_lines L cfg st line_no [] = Inr st"
| "iter_lines L cfg st line_no (line # rest) =
     (case process_line L cfg st line_no line of
        Inl err \<Rightarrow> Inl err
      | Inr st' \<Rightarrow> iter_lines L cfg st' (Suc line_no) rest)"

definition iter_turns :: "pylib \<Rightarrow> options \<Rightarrow> string list \<Rightarrow> py_error + run_state" where
  "iter_turns L cfg lines = iter_lines L cfg initial_state 1 lines"

section \<open>A sample transcript\<close>

text \<open>
  A decoder for the lines of the examples below. Each line is named by a short text that
  stands for its JSON text; every other line is malformed.
\<close>

definition user_hi :: json where
  "user_hi = JObj [(''type'', JStr ''user''),
                   (''message'', JObj [(''role'', JStr ''user''), (''content'', JStr ''hi'')])]"

definition assistant_hello :: json where
  "assistant_hello = JObj [(''type'', JStr ''assistant''),
                           (''message'', JObj [(''role'', JStr ''assistant''), (''content'', JStr ''hello'')])]"

definition system_message :: "(string \<times> json) list" where
  "system_message = [(''model'', JStr ''m-sys''), (''content'', JStr ''note'')]"

definition system_fields :: "(string \<times> json) list" where
  "system_fields = [(''type'', JStr ''system''), (''sessionId'', JStr ''s1''),
                    (''version'', JStr ''1.0''), (''cwd'', JStr ''/w''), (''gitBranch'', JStr ''main''),
                    (''message'', JObj system_message)]"

definition system_note :: json where
  "system_note = JObj system_fields"

definition blank_fields :: "(string \<times> json) list" where
  "blank_fields = [(''type'', JStr ''assistant''), (''sessionId'', JStr ''s2''),
                   (''version'', JStr ''2.0''), (''cwd'', JStr ''/x''), (''gitBranch'', JStr ''dev''),
                   (''message'', JObj [(''model'', JStr ''m1''), (''usage'', JObj []),
                                       (''content'', JStr '' '')])]"

definition assistant_blank :: json where
  "assistant_blank = JObj blank_fields"

definition usage_sample :: json where
  "usage_sample = JObj [(''input_tokens'', JInt 10), (''cache'', JObj [(''read'', JInt 5)]),
                        (''cached'', JBool True), (''tier'', JStr ''std'')]"

definition assistant_usage :: json where
  "assistant_usage = JObj [(''type'', JStr ''assistant''),
                           (''message'', JObj [(''usage'', usage_sample), (''content'', JStr ''ok'')])]"

definition read_use :: "(string \<times> json) list" where
  "read_use = [(''type'', JStr ''tool_use''), (''name'', JStr ''tool:Read''), (''id'', JStr ''t1''),
               (''input'', JObj [])]"

definition read_result :: "(string \<times> json) list" where
  "read_result = [(''type'', JStr ''tool_result''), (''tool_use_id'', JStr ''t1''),
                  (''content'', JStr ''file text'')]"

definition done_text :: json where
  "done_text = JObj [(''type'', JStr ''text''), (''text'', JStr ''done'')]"

definition reads_message :: "(string \<times> json) list" where
  "reads_message = [(''content'', JArr ([] @ JObj read_use # []))]"

definition assistant_reads :: "(string \<times> json) list" where
  "assistant_reads = [(''type'', JStr ''assistant''), (''message'', JObj reads_message)]"

definition user_result :: "(string \<times> json) list" where
  "user_result = [(''type'', JStr ''user''),
                  (''message'', JObj [(''content'', JArr ([] @ JObj read_result # [done_text]))])]"

definition user_done :: "(string \<times> json) list" where
  "user_done = [(''type'', JStr ''user''),
                (''message'', JObj [(''content'', JArr ([] @ [done_text]))])]"

definition demo_lib :: pylib where
  "demo_lib =
     \<lparr>loads = (\<lambda>s. if s = ''U'' then Inr user_hi
                   else if s = ''A'' then Inr assistant_hello
                   else if s = ''S'' then Inr system_note
                   else if s = ''E'' then Inr assistant_blank
                   else if s = ''G'' then Inr assistant_usage
                   else if s = ''T'' then Inr (JObj assistant_reads)
                   else if s = ''R'' then Inr (JObj user_result)
                   else if s = ''D'' then Inr (JObj user_done)
                   else Inl (JSONDecodeError ''Expecting value'')),
      dumps = (\<lambda>_. ''{}''),
      repr_container = (\<lambda>_. ''[]'')\<rparr>"

definition plain :: options where
  "plain = \<lparr>include_thinking = False, include_tools = False, only_tools = {}, excluded_tools = {}\<rparr>"

definition without_read :: options where
  "without_read = \<lparr>include_thinking = False, include_tools = True, only_tools = {}, excluded_tools = {''Read''}\<rparr>"

definition only_grep :: options where
  "only_grep = \<lparr>include_thinking = False, include_tools = True, only_tools = {''Grep''}, excluded_tools = {}\<rparr>"

definition with_tools :: options where
  "with_tools = \<lparr>include_thinking = False, include_tools = True, only_tools = {}, excluded_tools = {}\<rparr>"

definition titled_fields :: "(string \<times> json) list" where
  "titled_fields = [(''text'', JStr ''hi''), (''content'', JStr ''x'')]"

definition wrapper_fields :: "(string \<times> json) list" where
  "wrapper_fields = [(''type'', JStr ''image''), (''content'', JArr [JStr ''a'', JStr ''b''])]"

section \<open>Notions used in the statements\<close>

subsection \<open>Turn numbers and role counts\<close>

definition role_total :: "(string \<rightharpoonup> nat) \<Rightarrow> nat" where
  "role_total rc = (\<Sum>k\<in>dom rc. the (rc k))"

definition role_tally :: "turn list \<Rightarrow> string \<Rightarrow> nat option" where
  "role_tally ts k = (let c = length (filter (\<lambda>t. role t = k) ts) in if c = 0 then None else Some c)"

definition counted :: "run_state \<Rightarrow> bool" where
  "counted st \<longleftrightarrow>
     map index (turns st) = [1..<Suc (length (turns st))] \<and>
     finite (dom (role_counts st)) \<and>
     role_total (role_counts st) = length (turns st) \<and>
     role_tally (turns st) = role_counts st"

subsection \<open>Output apart from the diagnostics\<close>

definition quiet :: "py_error + run_state \<Rightarrow> py_error + run_state" where
  "quiet outcome = map_sum id (\<lambda>res. res\<lparr>stderr := []\<rparr>) outcome"

subsection \<open>Session metadata\<close>

definition event_models :: "(string \<times> json) list \<Rightarrow> string set" where
  "event_models event =
     (if dict_get event ''type'' = JStr ''user'' \<or> dict_get event ''type'' = JStr ''assistant''
      then (case dict_get event ''message'' of
              JObj message \<Rightarrow> {s. dict_get message ''model'' = JStr s \<and> s \<noteq> []}
            | _ \<Rightarrow> {})
      else {})"

definition metadata_kept :: "run_state \<Rightarrow> run_state \<Rightarrow> bool" where
  "metadata_kept st st' \<longleftrightarrow>
     session_ids st \<subseteq> session_ids st' \<and> versions st \<subseteq> versions st' \<and>
     cwd_values st \<subseteq> cwd_values st' \<and> branches st \<subseteq> branches st' \<and> models st \<subseteq> models st'"

subsection \<open>Fragments of a body\<close>

definition trimmed :: "string \<Rightarrow> bool" where
  "trimmed s \<longleftrightarrow> s = [] \<or> (\<not> isspace (hd s) \<and> \<not> isspace (last s))"

definition clean :: "string list \<Rightarrow> bool" where
  "clean ps \<longleftrightarrow> (\<forall>p\<in>set ps. p \<noteq> [] \<and> strip p = p)"

definition recognized_types :: "json set" where
  "recognized_types = {JStr ''text'', JStr ''thinking'', JStr ''tool_use'', JStr ''tool_result''}"

definition plain_item :: "json \<Rightarrow> bool" where
  "plain_item item = (case item of JObj kvs \<Rightarrow> dict_get kvs ''type'' \<notin> recognized_types | _ \<Rightarrow> True)"

definition fragments :: "pylib \<Rightarrow> options \<Rightarrow> tool_ids \<Rightarrow> json list \<Rightarrow> string list" where
  "fragments L cfg ids items = fst (foldl (extract_item L cfg) ([], ids) items)"

subsection \<open>Tool names and events that differ in content\<close>

definition tool_name :: "pylib \<Rightarrow> (string \<times> json) list \<Rightarrow> string" where
  "tool_name L item = normalize_tool_name (py_str L (dict_get_default item ''name'' (JStr ''unknown_tool'')))"

definition name_filtered :: "pylib \<Rightarrow> options \<Rightarrow> (string \<times> json) list \<Rightarrow> bool" where
  "name_filtered L cfg item \<longleftrightarrow>
     only_tools cfg \<noteq> {} \<and> tool_name L item \<notin> only_tools cfg \<or> tool_name L item \<in> excluded_tools cfg"

text \<open>Two events that differ only in the content of their messages.\<close>

definition same_but_content ::
  "(string \<times> json) list \<Rightarrow> (string \<times> json) list \<Rightarrow> json \<Rightarrow> json \<Rightarrow> bool"
where
  "same_but_content event event' content content' \<longleftrightarrow>
     (\<exists>message message'.
        dict_get event ''message'' = JObj message \<and> dict_get event' ''message'' = JObj message' \<and>
        dict_get message ''content'' = content \<and> dict_get message' ''content'' = content' \<and>
        dict_get message' ''model'' = dict_get message ''model'' \<and>
        dict_get message' ''usage'' = dict_get message ''usage'' \<and>
        dict_get message' ''role'' = dict_get message ''role'' \<and>
        dict_get message' ''timestamp'' = dict_get message ''timestamp'') \<and>
     dict_get event' ''type'' = dict_get event ''type'' \<and>
     dict_get event' ''timestamp'' = dict_get event ''timestamp'' \<and>
     dict_get event' ''sessionId'' = dict_get event ''sessionId'' \<and>
     dict_get event' ''version'' = dict_get event ''version'' \<and>
     dict_get event' ''cwd'' = dict_get event ''cwd'' \<and>
     dict_get event' ''gitBranch'' = dict_get event ''gitBranch''"

subsection \<open>Usage leaves, and what a line carries or raises\<close>

text \<open>
  The integer leaves of a usage value, each with the list of keys that leads to it. A
  boolean, a float, a string, null and a list are no leaves.
\<close>

fun usage_leaves :: "json \<Rightarrow> (string list \<times> int) list"
  and usage_leaves_items :: "(string \<times> json) list \<Rightarrow> (string list \<times> int) list"
where
  "usage_leaves (JObj kvs) = usage_leaves_items kvs"
| "usage_leaves (JInt n) = [([], n)]"
| "usage_leaves (JBool b) = []"
| "usage_leaves JNull = []"
| "usage_leaves (JFloat r) = []"
| "usage_leaves (JStr s) = []"
| "usage_leaves (JArr vs) = []"
| "usage_leaves_items [] = []"
| "usage_leaves_items ((key, nested) # rest) =
     map (\<lambda>(path, n). (key # path, n)) (usage_leaves nested) @ usage_leaves_items rest"

definition key_path :: "string list \<Rightarrow> string" where
  "key_path path = foldl next_prefix [] path"

fun add_total :: "string \<times> int \<Rightarrow> (string \<rightharpoonup> int) \<Rightarrow> (string \<rightharpoonup> int)" where
  "add_total (k, n) uc = uc(k \<mapsto> (case uc k of None \<Rightarrow> 0 | Some c \<Rightarrow> c) + n)"

definition keyed_leaves :: "json \<Rightarrow> (string \<times> int) list" where
  "keyed_leaves usage = map (\<lambda>(path, n). (key_path path, n)) (usage_leaves usage)"

definition event_usage :: "json \<Rightarrow> json option" where
  "event_usage ev =
     (case ev of
        JObj event \<Rightarrow>
          if dict_get event ''type'' = JStr ''user'' \<or> dict_get event ''type'' = JStr ''assistant''
          then (case dict_get event ''message'' of
                  JObj message \<Rightarrow>
                    (case dict_get message ''usage'' of JObj u \<Rightarrow> Some (JObj u) | _ \<Rightarrow> None)
                | _ \<Rightarrow> None)
          else None
      | _ \<Rightarrow> None)"

definition line_usage :: "pylib \<Rightarrow> string \<Rightarrow> json option" where
  "line_usage L line =
     (if strip line = [] then None
      else case loads L (strip line) of Inr ev \<Rightarrow> event_usage ev | Inl err \<Rightarrow> None)"

definition usages :: "pylib \<Rightarrow> string list \<Rightarrow> json list" where
  "usages L lines = List.map_filter (line_usage L) lines"

text \<open>The exception a line raises, if any: it does not depend on the state.\<close>

definition event_error :: "json \<Rightarrow> py_error option" where
  "event_error ev =
     (case ev of
        JObj event \<Rightarrow>
          (case dict_get event ''type'' of
             JArr _ \<Rightarrow> Some TypeError
           | JObj _ \<Rightarrow> Some TypeError
           | JStr event_type \<Rightarrow>
               if event_type \<noteq> ''user'' \<and> event_type \<noteq> ''assistant'' then None
               else (case dict_get event ''message'' of
                       JObj message \<Rightarrow>
                         (case normalize_role (dict_get message ''role'') event_type of
                            Inl err \<Rightarrow> Some err | Inr r \<Rightarrow> None)
                     | _ \<Rightarrow> None)
           | _ \<Rightarrow> None)
      | _ \<Rightarrow> Some AttributeError)"

definition line_error :: "pylib \<Rightarrow> string \<Rightarrow> py_error option" where
  "line_error L line =
     (if strip line = [] then None
      else case loads L (strip line) of
             Inl (JSONDecodeError exc) \<Rightarrow> None
           | Inl err \<Rightarrow> Some err
           | Inr ev \<Rightarrow> event_error ev)"

definition bump_usage :: "json option \<Rightarrow> run_state \<Rightarrow> run_state \<Rightarrow> bool" where
  "bump_usage carried st st' \<longleftrightarrow>
     usage_records st' = usage_records st + (case carried of None \<Rightarrow> 0 | Some u \<Rightarrow> 1) \<and>
     usage_counts st' = (case carried of None \<Rightarrow> usage_counts st | Some u \<Rightarrow> add_usage [] u (usage_counts st))"

subsection \<open>The body a line yields\<close>

text \<open>
  The body extracted for a line, with the correlation sets \<open>ids\<close> in force when the line is
  read: defined when the line holds an event of type \<^verbatim>\<open>user\<close> or \<^verbatim>\<open>assistant\<close> whose
  message is a mapping.
\<close>

definition event_body :: "pylib \<Rightarrow> options \<Rightarrow> tool_ids \<Rightarrow> json \<Rightarrow> string option" where
  "event_body L cfg ids ev =
     (case ev of
        JObj event \<Rightarrow>
          if dict_get event ''type'' = JStr ''user'' \<or> dict_get event ''type'' = JStr ''assistant''
          then (case dict_get event ''message'' of
                  JObj message \<Rightarrow> Some (fst (extract_body L cfg (dict_get message ''content'') ids))
                | _ \<Rightarrow> None)
          else None
      | _ \<Rightarrow> None)"

definition line_body :: "pylib \<Rightarrow> options \<Rightarrow> tool_ids \<Rightarrow> string \<Rightarrow> string option" where
  "line_body L cfg ids line =
     (if strip line = [] then None
      else case loads L (strip line) of Inr ev \<Rightarrow> event_body L cfg ids ev | Inl err \<Rightarrow> None)"

definition yields_turn :: "pylib \<Rightarrow> options \<Rightarrow> run_state \<times> string \<Rightarrow> bool" where
  "yields_turn L cfg at =
     (case line_body L cfg (tool_use_ids (fst at)) (snd at) of Some b \<Rightarrow> b \<noteq> [] | None \<Rightarrow> False)"

definition yielded_body :: "pylib \<Rightarrow> options \<Rightarrow> run_state \<times> string \<Rightarrow> string" where
  "yielded_body L cfg at =
     (case line_body L cfg (tool_use_ids (fst at)) (snd at) of Some b \<Rightarrow> b | None \<Rightarrow> [])"

text \<open>The lines the loop reaches, each with the state it is read in.\<close>

fun visited :: "pylib \<Rightarrow> options \<Rightarrow> run_state \<Rightarrow> nat \<Rightarrow> string list \<Rightarrow> (run_state \<times> string) list" where
  "visited L cfg st line_no [] = []"
| "visited L cfg st line_no (line # rest) =
     (st, line) # (case process_line L cfg st line_no line of
                     Inl err \<Rightarrow> []
                   | Inr st' \<Rightarrow> visited L cfg st' (Suc line_no) rest)"

subsection \<open>The fragment of an item, further sample lines and decimal digits\<close>

text \<open>
  The fragment an item of a content sequence leaves, written from the rules of the
  content normaliser and of the tool correlator: the trimmed text when it is not empty;
  for a \<^verbatim>\<open>thinking\<close> item only when thinking is included; for a \<^verbatim>\<open>tool_use\<close> item only when
  tools are included and its name is not filtered; for a \<^verbatim>\<open>tool_result\<close> item only when
  tools are included and the lookup of its reference permits it.
\<close>

definition nonblank :: "string \<Rightarrow> string option" where
  "nonblank s = (if strip s = [] then None else Some (strip s))"

definition identifier_of :: "json \<Rightarrow> string set" where
  "identifier_of v = (case v of JStr t \<Rightarrow> if t = [] then {} else {t} | _ \<Rightarrow> {})"

definition result_permitted :: "options \<Rightarrow> tool_ids \<Rightarrow> json \<Rightarrow> bool" where
  "result_permitted cfg ids ref =
     (case ref of
        JStr t \<Rightarrow> t \<notin> excluded_ids ids \<and> (only_tools cfg = {} \<or> t \<in> included_ids ids)
      | _ \<Rightarrow> only_tools cfg = {})"

definition item_fragment :: "pylib \<Rightarrow> options \<Rightarrow> tool_ids \<Rightarrow> json \<Rightarrow> string option" where
  "item_fragment L cfg ids item =
     (case item of
        JObj kvs \<Rightarrow>
          if dict_get kvs ''type'' = JStr ''text''
            then nonblank (coerce_text L (dict_get kvs ''text''))
          else if dict_get kvs ''type'' = JStr ''thinking''
            then (if include_thinking cfg
                  then map_option (fence ''thinking'') (nonblank (coerce_text L (dict_get kvs ''thinking'')))
                  else None)
          else if dict_get kvs ''type'' = JStr ''tool_use''
            then (if include_tools cfg \<and> \<not> name_filtered L cfg kvs
                  then Some (fence (''tool:'' @ tool_name L kvs) (dumps L (dict_get kvs ''input'')))
                  else None)
          else if dict_get kvs ''type'' = JStr ''tool_result''
            then (if include_tools cfg \<and> result_permitted cfg ids (dict_get kvs ''tool_use_id'')
                  then map_option (fence ''tool_result'') (nonblank (coerce_text L (dict_get kvs ''content'')))
                  else None)
          else nonblank (coerce_text L item)
      | _ \<Rightarrow> nonblank (coerce_text L item))"

text \<open>The correlation sets after an item: only a \<^verbatim>\<open>tool_use\<close> item with tools included records its identifier.\<close>

definition item_ids :: "pylib \<Rightarrow> options \<Rightarrow> tool_ids \<Rightarrow> json \<Rightarrow> tool_ids" where
  "item_ids L cfg ids item =
     (case item of
        JObj kvs \<Rightarrow>
          if dict_get kvs ''type'' = JStr ''tool_use'' \<and> include_tools cfg
          then (if name_filtered L cfg kvs
                then ids\<lparr>excluded_ids := excluded_ids ids \<union> identifier_of (dict_get kvs ''id'')\<rparr>
                else ids\<lparr>included_ids := included_ids ids \<union> identifier_of (dict_get kvs ''id'')\<rparr>)
          else ids
      | _ \<Rightarrow> ids)"

fun sequence_fragments :: "pylib \<Rightarrow> options \<Rightarrow> tool_ids \<Rightarrow> json list \<Rightarrow> string list" where
  "sequence_fragments L cfg ids [] = []"
| "sequence_fragments L cfg ids (item # rest) =
     (case item_fragment L cfg ids item of Some fragment \<Rightarrow> [fragment] | None \<Rightarrow> [])
       @ sequence_fragments L cfg (item_ids L cfg ids item) rest"

fun sequence_ids :: "pylib \<Rightarrow> options \<Rightarrow> tool_ids \<Rightarrow> json list \<Rightarrow> tool_ids" where
  "sequence_ids L cfg ids [] = ids"
| "sequence_ids L cfg ids (item # rest) = sequence_ids L cfg (item_ids L cfg ids item) rest"

definition thinking_note :: json where
  "thinking_note = JObj [(''type'', JStr ''thinking''), (''thinking'', JStr ''hm'')]"

definition with_thinking :: options where
  "with_thinking = \<lparr>include_thinking = True, include_tools = False, only_tools = {}, excluded_tools = {}\<rparr>"

definition whole_message :: "(string \<times> json) list" where
  "whole_message = [(''content'', JObj read_result)]"

definition user_whole_result :: "(string \<times> json) list" where
  "user_whole_result = [(''type'', JStr ''user''), (''message'', JObj whole_message)]"

definition anon_use :: "(string \<times> json) list" where
  "anon_use = [(''type'', JStr ''tool_use''), (''name'', JStr ''tool:Read''), (''id'', JStr []),
               (''input'', JObj [])]"

definition anon_result :: "(string \<times> json) list" where
  "anon_result = [(''type'', JStr ''tool_result''), (''tool_use_id'', JStr []),
                  (''content'', JStr ''secret'')]"

definition assistant_anon :: "(string \<times> json) list" where
  "assistant_anon = [(''type'', JStr ''assistant''), (''message'', JObj [(''content'', JArr [JObj anon_use])])]"

definition user_anon :: "(string \<times> json) list" where
  "user_anon = [(''type'', JStr ''user''), (''message'', JObj [(''content'', JArr [JObj anon_result])])]"

text \<open>
  The sample decoder with further lines: a message whose whole content is a
  \<^verbatim>\<open>tool_result\<close>, a use and a result that share the empty identifier, a line that
  decodes to a list, and a line that \<^verbatim>\<open>json.loads\<close> rejects with \<^verbatim>\<open>ValueError\<close>.
\<close>

definition more_lib :: pylib where
  "more_lib =
     demo_lib\<lparr>loads := (\<lambda>s. if s = ''W'' then Inr (JObj user_whole_result)
                            else if s = ''T0'' then Inr (JObj assistant_anon)
                            else if s = ''R0'' then Inr (JObj user_anon)
                            else if s = ''L'' then Inr (JArr [JInt 1, JInt 2])
                            else if s = ''H'' then Inl (OtherError ''ValueError'')
                            else loads demo_lib s)\<rparr>"

text \<open>The number a string of decimal digits denotes.\<close>

definition decimal_value :: "string \<Rightarrow> nat" where
  "decimal_value s = foldl (\<lambda>acc c. 10 * acc + (of_char c - 48)) 0 s"

section \<open>Unfolding the sample\<close>

lemmas run_defs =
  iter_turns_def process_line_def process_event_def process_message_def
  strip_def isspace_def initial_state_def track_timestamp_def collect_event_fields_def
  dict_get_def dict_get_default_def collect_usage_def normalize_role_def py_or_def lower_def
  lower_char_def upper_char_def extract_body_def extract_item_def emit_turn_def add_id_def
  skip_message_def digit_char_def append_text_def fence_def NL_def next_prefix_def
  tool_use_item_def tool_result_item_def normalize_tool_name_def startswith_def

lemmas demo_defs =
  demo_lib_def plain_def without_read_def only_grep_def with_tools_def user_hi_def assistant_hello_def
  system_message_def system_fields_def system_note_def blank_fields_def assistant_blank_def usage_sample_def assistant_usage_def read_use_def
  read_result_def done_text_def reads_message_def assistant_reads_def user_result_def user_done_def

lemmas more_defs =
  more_lib_def whole_message_def user_whole_result_def anon_use_def anon_result_def
  assistant_anon_def user_anon_def

section \<open>How one line changes the state\<close>

lemma track_timestamp_fields [simp]:
  "turns (track_timestamp t st) = turns st"
  "role_counts (track_timestamp t st) = role_counts st"
  "usage_counts (track_timestamp t st) = usage_counts st"
  "usage_records (track_timestamp t st) = usage_records st"
  "tool_use_ids (track_timestamp t st) = tool_use_ids st"
  "stderr (track_timestamp t st) = stderr st"
  "session_ids (track_timestamp t st) = session_ids st"
  "versions (track_timestamp t st) = versions st"
  "cwd_values (track_timestamp t st) = cwd_values st"
  "branches (track_timestamp t st) = branches st"
  "models (track_timestamp t st) = models st"
  by (simp_all add: track_timestamp_def split: option.splits)

lemma collect_event_fields_fields [simp]:
  "turns (collect_event_fields e st) = turns st"
  "role_counts (collect_event_fields e st) = role_counts st"
  "usage_counts (collect_event_fields e st) = usage_counts st"
  "usage_records (collect_event_fields e st) = usage_records st"
  "tool_use_ids (collect_event_fields e st) = tool_use_ids st"
  "stderr (collect_event_fields e st) = stderr st"
  "models (collect_event_fields e st) = models st"
  by (simp_all add: collect_event_fields_def)

lemma collect_usage_fields [simp]:
  "turns (collect_usage u st) = turns st"
  "role_counts (collect_usage u st) = role_counts st"
  "tool_use_ids (collect_usage u st) = tool_use_ids st"
  "stderr (collect_usage u st) = stderr st"
  "session_ids (collect_usage u st) = session_ids st"
  "versions (collect_usage u st) = versions st"
  "cwd_values (collect_usage u st) = cwd_values st"
  "branches (collect_usage u st) = branches st"
  "models (collect_usage u st) = models st"
  by (simp_all add: collect_usage_def split: json.splits)

lemma emit_turn_fields [simp]:
  "turns (emit_turn st r ts b) = turns st @ [\<lparr>index = length (turns st) + 1, role = r, timestamp = ts, body = b\<rparr>]"
  "role_counts (emit_turn st r ts b) = (role_counts st)(r \<mapsto> (case role_counts st r of None \<Rightarrow> 0 | Some c \<Rightarrow> c) + 1)"
  "usage_counts (emit_turn st r ts b) = usage_counts st"
  "usage_records (emit_turn st r ts b) = usage_records st"
  "tool_use_ids (emit_turn st r ts b) = tool_use_ids st"
  "stderr (emit_turn st r ts b) = stderr st"
  "session_ids (emit_turn st r ts b) = session_ids st"
  "versions (emit_turn st r ts b) = versions st"
  "cwd_values (emit_turn st r ts b) = cwd_values st"
  "branches (emit_turn st r ts b) = branches st"
  "models (emit_turn st r ts b) = models st"
  by (simp_all add: emit_turn_def)

text \<open>What a message leaves behind.\<close>

lemma process_message_cases:
  assumes "process_message L cfg st event et = Inr st'"
  obtains (no_message) "\<forall>message. dict_get event ''message'' \<noteq> JObj message" "st' = st"
  | (silent) message r ids where
      "dict_get event ''message'' = JObj message"
      "normalize_role (dict_get message ''role'') et = Inr r"
      "extract_body L cfg (dict_get message ''content'')
         (tool_use_ids st) = ([], ids)"
      "st' = (collect_usage (dict_get message ''usage'')
                (st\<lparr>models := add_id (dict_get message ''model'') (models st)\<rparr>))\<lparr>tool_use_ids := ids\<rparr>"
  | (emitted) message r b ids where
      "dict_get event ''message'' = JObj message"
      "normalize_role (dict_get message ''role'') et = Inr r"
      "extract_body L cfg (dict_get message ''content'')
         (tool_use_ids st) = (b, ids)" "b \<noteq> []"
      "st' = emit_turn ((collect_usage (dict_get message ''usage'')
                (st\<lparr>models := add_id (dict_get message ''model'') (models st)\<rparr>))\<lparr>tool_use_ids := ids\<rparr>)
                r (py_or (dict_get event ''timestamp'') (dict_get message ''timestamp'')) b"
  using assms unfolding process_message_def
  by (auto simp: Let_def split: json.splits sum.splits prod.splits if_splits)

lemma process_event_cases:
  assumes "process_event L cfg st ev = Inr st'"
  obtains (other) event where "ev = JObj event"
      "\<forall>et. dict_get event ''type'' = JStr et \<longrightarrow> et \<noteq> ''user'' \<and> et \<noteq> ''assistant''"
      "st' = collect_event_fields event (track_timestamp (dict_get event ''timestamp'') st)"
  | (message) event et where "ev = JObj event" "dict_get event ''type'' = JStr et"
      "et = ''user'' \<or> et = ''assistant''"
      "process_message L cfg (collect_event_fields event (track_timestamp (dict_get event ''timestamp'') st)) event et = Inr st'"
  using assms unfolding process_event_def
  by (auto simp: Let_def split: json.splits if_splits)

lemma process_line_cases:
  assumes "process_line L cfg st n line = Inr st'"
  obtains (blank) "strip line = []" "st' = st"
  | (malformed) exc where "strip line \<noteq> []" "loads L (strip line) = Inl (JSONDecodeError exc)"
      "st' = st\<lparr>stderr := stderr st @ [skip_message n exc]\<rparr>"
  | (event) ev where "strip line \<noteq> []" "loads L (strip line) = Inr ev" "process_event L cfg st ev = Inr st'"
  using assms unfolding process_line_def
  by (auto simp: Let_def split: sum.splits py_error.splits if_splits)

section \<open>Turn numbers and role counts\<close>

lemma role_total_bump:
  fixes m :: "string \<rightharpoonup> nat"
  assumes "finite (dom m)"
  shows "role_total (m(r \<mapsto> (case m r of None \<Rightarrow> 0 | Some c \<Rightarrow> c) + 1)) = Suc (role_total m)"
proof (cases "m r")
  case None
  then have "r \<notin> dom m" by auto
  then show ?thesis using assms None unfolding role_total_def
    by (simp add: sum.insert) (rule sum.cong, auto)
next
  case (Some c)
  then have r: "r \<in> dom m" by auto
  have d: "dom (m(r \<mapsto> c + 1)) = insert r (dom m - {r})" by auto
  have "(\<Sum>k\<in>dom m. the (m k)) = c + (\<Sum>k\<in>dom m - {r}. the (m k))"
    using sum.remove [OF assms r, of "\<lambda>k. the (m k)"] Some by simp
  moreover have "(\<Sum>k\<in>insert r (dom m - {r}). the ((m(r \<mapsto> c + 1)) k))
        = (c + 1) + (\<Sum>k\<in>dom m - {r}. the (m k))"
    using assms by (subst sum.insert) (auto intro: sum.cong)
  ultimately show ?thesis using Some d unfolding role_total_def by simp
qed

lemma role_tally_snoc:
  "role_tally (ts @ [t]) = (role_tally ts)(role t \<mapsto> (case role_tally ts (role t) of None \<Rightarrow> 0 | Some c \<Rightarrow> c) + 1)"
  by (rule ext) (simp add: role_tally_def Let_def)

lemma counted_cong:
  "counted b \<Longrightarrow> turns a = turns b \<Longrightarrow> role_counts a = role_counts b \<Longrightarrow> counted a"
  by (simp add: counted_def)

lemma counted_initial: "counted initial_state"
  by (auto simp: counted_def initial_state_def role_total_def role_tally_def)

lemma counted_emit_turn:
  assumes "counted st"
  shows "counted (emit_turn st r ts b)"
proof -
  let ?t = "\<lparr>index = length (turns st) + 1, role = r, timestamp = ts, body = b\<rparr>"
  let ?m = "(role_counts st)(r \<mapsto> (case role_counts st r of None \<Rightarrow> 0 | Some c \<Rightarrow> c) + 1)"
  have fin: "finite (dom (role_counts st))" and tot: "role_total (role_counts st) = length (turns st)"
    and idx: "map index (turns st) = [1..<Suc (length (turns st))]"
    and tal: "role_tally (turns st) = role_counts st"
    using assms unfolding counted_def by blast+
  have 1: "map index (turns st @ [?t]) = [1..<Suc (length (turns st @ [?t]))]"
    using idx by simp
  have 2: "finite (dom ?m)" using fin by simp
  have 3: "role_total ?m = length (turns st @ [?t])"
    using role_total_bump [OF fin, of r] tot by simp
  have 4: "role_tally (turns st @ [?t]) = ?m"
    by (simp only: role_tally_snoc tal turn.simps)
  show ?thesis
    unfolding counted_def emit_turn_fields using 1 2 3 4 by blast
qed

lemma counted_message:
  assumes "counted st" and "process_message L cfg st event et = Inr st'"
  shows "counted st'"
  using assms(2)
proof (cases rule: process_message_cases)
  case no_message
  then show ?thesis using assms(1) by simp
next
  case (silent message r ids)
  show ?thesis unfolding silent(4) by (rule counted_cong [OF assms(1)]) simp_all
next
  case (emitted message r b ids)
  have "counted ((collect_usage (dict_get message ''usage'')
                (st\<lparr>models := add_id (dict_get message ''model'') (models st)\<rparr>))\<lparr>tool_use_ids := ids\<rparr>)"
    by (rule counted_cong [OF assms(1)]) simp_all
  then show ?thesis unfolding emitted(5) by (rule counted_emit_turn)
qed

lemma counted_event:
  assumes "counted st" and "process_event L cfg st ev = Inr st'"
  shows "counted st'"
  using assms(2)
proof (cases rule: process_event_cases)
  case (other event)
  show ?thesis unfolding other(3) by (rule counted_cong [OF assms(1)]) simp_all
next
  case (message event et)
  have "counted (collect_event_fields event (track_timestamp (dict_get event ''timestamp'') st))"
    by (rule counted_cong [OF assms(1)]) simp_all
  then show ?thesis using message(4) by (rule counted_message)
qed

lemma counted_line:
  assumes "counted st" and "process_line L cfg st n line = Inr st'"
  shows "counted st'"
  using assms(2)
proof (cases rule: process_line_cases)
  case blank
  then show ?thesis using assms(1) by simp
next
  case (malformed exc)
  show ?thesis unfolding malformed(3) by (rule counted_cong [OF assms(1)]) simp_all
next
  case (event ev)
  then show ?thesis using assms(1) counted_event by blast
qed

lemma counted_lines:
  "counted st \<Longrightarrow> iter_lines L cfg st n lines = Inr st' \<Longrightarrow> counted st'"
proof (induction lines arbitrary: st n)
  case Nil
  then show ?case by simp
next
  case (Cons line rest)
  then show ?case by (auto split: sum.splits dest: counted_line)
qed

text \<open>
  C10. After a parse that returns, the turn at 0-based position \<open>i\<close> has sequence index
  \<open>i + 1\<close>, and the role counts add up to the number of turns: each role's count is the
  number of emitted turns with that role.
\<close>

theorem turns_numbered_and_counted:
  assumes "iter_turns L cfg lines = Inr res"
  shows "(\<forall>i<length (turns res). index (turns res ! i) = i + 1) \<and>
         finite (dom (role_counts res)) \<and>
         (\<Sum>k\<in>dom (role_counts res). the (role_counts res k)) = length (turns res) \<and>
         (\<forall>k. (case role_counts res k of None \<Rightarrow> 0 | Some c \<Rightarrow> c)
                = length (filter (\<lambda>t. role t = k) (turns res)))"
proof -
  have c: "counted res"
    using assms counted_lines [OF counted_initial] unfolding iter_turns_def by blast
  have fin: "finite (dom (role_counts res))" and tot: "role_total (role_counts res) = length (turns res)"
    and idx: "map index (turns res) = [1..<Suc (length (turns res))]"
    and tal: "role_tally (turns res) = role_counts res"
    using c unfolding counted_def by blast+
  have "index (turns res ! i) = i + 1" if "i < length (turns res)" for i
  proof -
    have "map index (turns res) ! i = [1..<Suc (length (turns res))] ! i"
      using idx by simp
    then show ?thesis using that by (simp del: upt_Suc)
  qed
  moreover have "(case role_counts res k of None \<Rightarrow> 0 | Some c \<Rightarrow> c)
                = length (filter (\<lambda>t. role t = k) (turns res))" for k
    unfolding tal [symmetric] by (simp add: role_tally_def Let_def)
  ultimately show ?thesis using fin tot unfolding role_total_def by blast
qed

theorem turns_numbered_and_counted_witness:
  "\<exists>res. iter_turns demo_lib plain [''U'', ''not json'', ''A''] = Inr res \<and>
         length (turns res) = 2 \<and>
         index (turns res ! 0) = 1 \<and> index (turns res ! 1) = 2 \<and>
         (\<Sum>k\<in>dom (role_counts res). the (role_counts res k)) = 2 \<and>
         role_counts res ''User'' = Some 1 \<and> role_counts res ''Assistant'' = Some 1"
proof -
  obtain res where run: "iter_turns demo_lib plain [''U'', ''not json'', ''A''] = Inr res"
    and len: "length (turns res) = 2"
    and rc: "role_counts res ''User'' = Some 1" "role_counts res ''Assistant'' = Some 1"
    by (simp add: run_defs demo_defs)
  from turns_numbered_and_counted [OF run] len rc run show ?thesis
    by simp
qed

section \<open>Diagnostics and the rest of the state\<close>

lemma iter_lines_append:
  "iter_lines L cfg st n (xs @ ys) =
     (case iter_lines L cfg st n xs of
        Inl err \<Rightarrow> Inl err
      | Inr st' \<Rightarrow> iter_lines L cfg st' (n + length xs) ys)"
  by (induction xs arbitrary: st n) (auto split: sum.splits)

lemma process_message_stderr:
  "process_message L cfg (st\<lparr>stderr := e\<rparr>) event et =
     map_sum id (\<lambda>res. res\<lparr>stderr := e\<rparr>) (process_message L cfg st event et)"
  by (simp add: process_message_def collect_usage_def emit_turn_def Let_def
        split: json.splits sum.splits prod.splits)

lemma process_event_stderr:
  "process_event L cfg (st\<lparr>stderr := e\<rparr>) ev =
     map_sum id (\<lambda>res. res\<lparr>stderr := e\<rparr>) (process_event L cfg st ev)"
proof -
  have t: "track_timestamp t (st\<lparr>stderr := e\<rparr>) = (track_timestamp t st)\<lparr>stderr := e\<rparr>" for t
    by (simp add: track_timestamp_def split: option.splits)
  have c: "collect_event_fields ev' (s\<lparr>stderr := e\<rparr>) = (collect_event_fields ev' s)\<lparr>stderr := e\<rparr>" for ev' s
    by (simp add: collect_event_fields_def)
  show ?thesis
    by (simp add: process_event_def t c process_message_stderr Let_def split: json.splits)
qed

lemma process_line_quiet:
  "quiet (process_line L cfg (st\<lparr>stderr := e\<rparr>) n line) = quiet (process_line L cfg st n line)"
  by (cases "process_event L cfg st (projr (loads L (strip line)))")
     (auto simp: process_line_def quiet_def process_event_stderr Let_def split: sum.splits py_error.splits)

lemma quiet_eq_InrD:
  assumes "quiet a = quiet b" and "a = Inr x"
  shows "\<exists>y. b = Inr y \<and> x = y\<lparr>stderr := stderr x\<rparr>"
proof (cases b)
  case (Inl err)
  with assms show ?thesis by (simp add: quiet_def)
next
  case (Inr y)
  with assms have "x\<lparr>stderr := []\<rparr> = y\<lparr>stderr := []\<rparr>" by (simp add: quiet_def)
  then have "x = y\<lparr>stderr := stderr x\<rparr>" by (cases x, cases y) simp
  with Inr show ?thesis by simp
qed

lemma quiet_eq_InlD: "quiet a = quiet b \<Longrightarrow> a = Inl x \<Longrightarrow> b = Inl x"
  by (cases b; simp add: quiet_def)

lemma iter_lines_quiet:
  "quiet (iter_lines L cfg (st\<lparr>stderr := e\<rparr>) n lines) = quiet (iter_lines L cfg st n lines)"
proof (induction lines arbitrary: st e n)
  case Nil
  show ?case by (simp add: quiet_def)
next
  case (Cons line rest)
  show ?case
  proof (cases "process_line L cfg (st\<lparr>stderr := e\<rparr>) n line")
    case (Inl err)
    with quiet_eq_InlD [OF process_line_quiet Inl] show ?thesis by simp
  next
    case (Inr x)
    from quiet_eq_InrD [OF process_line_quiet Inr]
    obtain y where y: "process_line L cfg st n line = Inr y" "x = y\<lparr>stderr := stderr x\<rparr>" by blast
    have "quiet (iter_lines L cfg x (Suc n) rest) = quiet (iter_lines L cfg y (Suc n) rest)"
      by (subst y(2)) (rule Cons.IH)
    with Inr y(1) show ?thesis by simp
  qed
qed

lemma process_line_stderr_grows:
  assumes "process_line L cfg st n line = Inr st'"
  shows "set (stderr st) \<subseteq> set (stderr st')"
  using assms
proof (cases rule: process_line_cases)
  case (event ev)
  from event(3) show ?thesis
  proof (cases rule: process_event_cases)
    case (message event' et)
    from message(4) show ?thesis by (cases rule: process_message_cases) simp_all
  qed simp
qed auto

lemma iter_lines_stderr_grows:
  "iter_lines L cfg st n lines = Inr st' \<Longrightarrow> set (stderr st) \<subseteq> set (stderr st')"
proof (induction lines arbitrary: st n)
  case Nil
  then show ?case by simp
next
  case (Cons line rest)
  then show ?case by (fastforce split: sum.splits dest: process_line_stderr_grows)
qed

section \<open>Session metadata\<close>

lemma add_id_eq: "add_id v ids = ids \<union> {s. v = JStr s \<and> s \<noteq> []}"
  by (cases v) (auto simp: add_id_def)

lemma process_message_metadata:
  assumes "process_message L cfg st event et = Inr st'"
  shows "session_ids st' = session_ids st \<and> versions st' = versions st \<and>
         cwd_values st' = cwd_values st \<and> branches st' = branches st \<and>
         models st' = (case dict_get event ''message'' of
                         JObj message \<Rightarrow> add_id (dict_get message ''model'') (models st)
                       | _ \<Rightarrow> models st)"
  using assms
proof (cases rule: process_message_cases)
  case no_message
  then show ?thesis by (cases "dict_get event ''message''") simp_all
qed simp_all

lemma process_event_metadata:
  assumes "process_event L cfg st (JObj event) = Inr st'"
  shows "session_ids st' = session_ids st \<union> {s. dict_get event ''sessionId'' = JStr s \<and> s \<noteq> []} \<and>
         versions st' = versions st \<union> {s. dict_get event ''version'' = JStr s \<and> s \<noteq> []} \<and>
         cwd_values st' = cwd_values st \<union> {s. dict_get event ''cwd'' = JStr s \<and> s \<noteq> []} \<and>
         branches st' = branches st \<union> {s. dict_get event ''gitBranch'' = JStr s \<and> s \<noteq> []} \<and>
         models st' = models st \<union> event_models event"
  using assms
proof (cases rule: process_event_cases)
  case (other event')
  then show ?thesis
    by (auto simp: collect_event_fields_def add_id_eq event_models_def)
next
  case (message event' et)
  from process_message_metadata [OF message(4)] message(1,2,3) show ?thesis
    by (auto simp: collect_event_fields_def add_id_eq event_models_def split: json.splits)
qed

lemma process_line_metadata_kept:
  assumes "process_line L cfg st n line = Inr st'"
  shows "metadata_kept st st'"
  using assms
proof (cases rule: process_line_cases)
  case (event ev)
  from event(3) show ?thesis
  proof (cases rule: process_event_cases)
    case (other event')
    with process_event_metadata [of L cfg st event' st'] event(3) show ?thesis
      by (simp add: metadata_kept_def)
  next
    case (message event' et)
    with process_event_metadata [of L cfg st event' st'] event(3) show ?thesis
      by (simp add: metadata_kept_def)
  qed
qed (simp_all add: metadata_kept_def)

lemma iter_lines_metadata_kept:
  "iter_lines L cfg st n lines = Inr st' \<Longrightarrow> metadata_kept st st'"
proof (induction lines arbitrary: st n)
  case Nil
  then show ?case by (simp add: metadata_kept_def)
next
  case (Cons line rest)
  then obtain mid where "process_line L cfg st n line = Inr mid" "iter_lines L cfg mid (Suc n) rest = Inr st'"
    by (auto split: sum.splits)
  with Cons.IH [of mid "Suc n"] process_line_metadata_kept [of L cfg st n line mid]
  show ?case unfolding metadata_kept_def by blast
qed

text \<open>
  C6, as the code has it. For an event decoded from any line of a parse that returns:
  \<^verbatim>\<open>sessionId\<close>, \<^verbatim>\<open>version\<close>, \<^verbatim>\<open>cwd\<close> and \<^verbatim>\<open>gitBranch\<close> are added to their sets whenever they
  are non-empty strings, whatever the event's type and whether or not it yields a turn,
  and nothing else is added; the message's \<^verbatim>\<open>model\<close> is added only when the event's type is
  \<^verbatim>\<open>user\<close> or \<^verbatim>\<open>assistant\<close> and its message is a mapping (then also when the body is empty).
  What was added stays until the end of the parse.
\<close>

theorem metadata_collected:
  assumes "iter_turns L cfg (pre @ line # post) = Inr res"
    and "strip line \<noteq> []" and "loads L (strip line) = Inr (JObj event)"
  shows "\<exists>st st'. iter_lines L cfg initial_state 1 pre = Inr st \<and>
           process_event L cfg st (JObj event) = Inr st' \<and>
           session_ids st' = session_ids st \<union> {s. dict_get event ''sessionId'' = JStr s \<and> s \<noteq> []} \<and>
           versions st' = versions st \<union> {s. dict_get event ''version'' = JStr s \<and> s \<noteq> []} \<and>
           cwd_values st' = cwd_values st \<union> {s. dict_get event ''cwd'' = JStr s \<and> s \<noteq> []} \<and>
           branches st' = branches st \<union> {s. dict_get event ''gitBranch'' = JStr s \<and> s \<noteq> []} \<and>
           models st' = models st \<union> event_models event \<and>
           session_ids st' \<subseteq> session_ids res \<and> versions st' \<subseteq> versions res \<and>
           cwd_values st' \<subseteq> cwd_values res \<and> branches st' \<subseteq> branches res \<and>
           models st' \<subseteq> models res"
proof -
  from assms(1) obtain st where pre: "iter_lines L cfg initial_state 1 pre = Inr st"
    and rest: "iter_lines L cfg st (1 + length pre) (line # post) = Inr res"
    by (auto simp: iter_turns_def iter_lines_append split: sum.splits)
  have "process_line L cfg st (1 + length pre) line = process_event L cfg st (JObj event)"
    using assms(2,3) by (simp add: process_line_def)
  with rest obtain st' where ev: "process_event L cfg st (JObj event) = Inr st'"
    and post: "iter_lines L cfg st' (Suc (1 + length pre)) post = Inr res"
    by (auto split: sum.splits)
  from iter_lines_metadata_kept [OF post] process_event_metadata [OF ev] pre ev
  show ?thesis unfolding metadata_kept_def by blast
qed

theorem metadata_collected_witness:
  "strip ''E'' \<noteq> [] \<and> loads demo_lib (strip ''E'') = Inr assistant_blank \<and>
   (\<exists>res. iter_turns demo_lib plain ([''S''] @ ''E'' # [''U'']) = Inr res \<and>
      session_ids res = {''s1'', ''s2''} \<and> versions res = {''1.0'', ''2.0''} \<and>
      cwd_values res = {''/w'', ''/x''} \<and> branches res = {''main'', ''dev''} \<and>
      models res = {''m1''} \<and> map body (turns res) = [''hi''] \<and>
      (\<exists>st st'. iter_lines demo_lib plain initial_state 1 [''S''] = Inr st \<and>
         process_event demo_lib plain st assistant_blank = Inr st' \<and>
         session_ids st' = session_ids st \<union> {''s2''} \<and>
         models st' = models st \<union> {''m1''} \<and> models st' \<subseteq> models res))"
proof -
  have h: "strip ''E'' \<noteq> []" "loads demo_lib (strip ''E'') = Inr assistant_blank"
    by (simp_all add: run_defs demo_defs)
  obtain res where run: "iter_turns demo_lib plain ([''S''] @ ''E'' # [''U'']) = Inr res"
    and out: "session_ids res = {''s1'', ''s2''}" "versions res = {''1.0'', ''2.0''}"
       "cwd_values res = {''/w'', ''/x''}" "branches res = {''main'', ''dev''}"
       "models res = {''m1''}" "map body (turns res) = [''hi'']"
    by (auto simp add: run_defs demo_defs)
  from metadata_collected [OF run h(1) h(2) [unfolded assistant_blank_def]]
  obtain st st' where st: "iter_lines demo_lib plain initial_state 1 [''S''] = Inr st"
    "process_event demo_lib plain st (JObj blank_fields) = Inr st'"
    "session_ids st' = session_ids st \<union> {s. dict_get blank_fields ''sessionId'' = JStr s \<and> s \<noteq> []}"
    "models st' = models st \<union> event_models blank_fields" "models st' \<subseteq> models res"
    by blast
  have e: "{s. dict_get blank_fields ''sessionId'' = JStr s \<and> s \<noteq> []} = {''s2''}"
    "event_models blank_fields = {''m1''}"
    by (auto simp: event_models_def dict_get_def blank_fields_def)
  have st': "process_event demo_lib plain st assistant_blank = Inr st'"
    "session_ids st' = session_ids st \<union> {''s2''}"
    "models st' = models st \<union> {''m1''}"
    using st(2,3,4) unfolding e assistant_blank_def by blast+
  show ?thesis
    by (intro conjI exI [of _ res] exI [of _ st] exI [of _ st']) (fact h run out st(1,5) st')+
qed

text \<open>
  C6 as stated fails for the model: a \<^verbatim>\<open>system\<close> event whose message names a model leaves
  the set of models empty, while its session id is collected.
\<close>

theorem model_skipped_for_other_event_types:
  "loads demo_lib (strip ''S'') = Inr (JObj system_fields) \<and>
   dict_get system_fields ''type'' = JStr ''system'' \<and>
   dict_get system_fields ''message'' = JObj system_message \<and>
   dict_get system_message ''model'' = JStr ''m-sys'' \<and>
   map_sum id models (iter_turns demo_lib plain [''S'']) = Inr {} \<and>
   map_sum id session_ids (iter_turns demo_lib plain [''S'']) = Inr {''s1''}"
  by (simp add: run_defs demo_defs)

section \<open>Sequences and untagged mappings\<close>

lemma last_dropWhile: "dropWhile P xs \<noteq> [] \<Longrightarrow> last (dropWhile P xs) = last xs"
  by (induction xs) (auto split: if_splits)

lemma trimmed_strip: "trimmed (strip s)"
proof (cases "strip s = []")
  case True
  then show ?thesis by (simp add: trimmed_def)
next
  case False
  let ?A = "dropWhile isspace s"
  let ?B = "dropWhile isspace (rev ?A)"
  have B: "?B \<noteq> []" using False by (simp add: strip_def)
  have A: "?A \<noteq> []"
  proof
    assume "?A = []"
    then have "?B = []" by (simp only: rev.simps dropWhile.simps)
    with B show False by contradiction
  qed
  have "last ?B = hd ?A" using last_dropWhile [OF B] A by (simp add: last_rev)
  moreover have "\<not> isspace (hd ?A)" using A by (rule hd_dropWhile)
  moreover have "\<not> isspace (hd ?B)" using B by (rule hd_dropWhile)
  ultimately show ?thesis using B
    by (simp add: trimmed_def strip_def hd_rev last_rev)
qed

lemma strip_trimmed: "trimmed s \<Longrightarrow> strip s = s"
proof (cases s)
  case Nil
  then show ?thesis by (simp add: strip_def)
next
  case (Cons c cs)
  assume "trimmed s"
  with Cons have h: "\<not> isspace (hd s)" and l: "\<not> isspace (last s)" by (auto simp: trimmed_def)
  from h Cons have 1: "dropWhile isspace s = s" by simp
  obtain a as where r: "rev s = a # as" using Cons by (cases "rev s") auto
  then have "a = hd (rev s)" by simp
  also have "\<dots> = last s" by (simp add: hd_rev)
  finally have "\<not> isspace a" using l by simp
  then have 2: "dropWhile isspace (rev s) = rev s" unfolding r by simp
  show ?thesis by (simp add: strip_def 1 2)
qed

lemma trimmed_fence: "trimmed (fence label text)"
  by (simp add: trimmed_def fence_def isspace_def)

lemma fence_nonempty: "fence label text \<noteq> []"
  by (simp add: fence_def)

lemma hd_join: "ps \<noteq> [] \<Longrightarrow> hd ps \<noteq> [] \<Longrightarrow> hd (join sep ps) = hd (hd ps)"
  by (induction sep ps rule: join.induct) auto

lemma join_nonempty: "ps \<noteq> [] \<Longrightarrow> last ps \<noteq> [] \<Longrightarrow> join sep ps \<noteq> []"
  by (induction sep ps rule: join.induct) auto

lemma last_join: "ps \<noteq> [] \<Longrightarrow> last ps \<noteq> [] \<Longrightarrow> last (join sep ps) = last (last ps)"
  by (induction sep ps rule: join.induct) (auto simp: join_nonempty)

lemma join_eq_Nil: "\<forall>p\<in>set ps. p \<noteq> [] \<Longrightarrow> join sep ps = [] \<longleftrightarrow> ps = []"
  by (induction sep ps rule: join.induct) auto

lemma trimmed_join:
  assumes "\<forall>p\<in>set ps. p \<noteq> [] \<and> trimmed p"
  shows "trimmed (join sep ps)"
proof (cases ps)
  case Nil
  then show ?thesis by (simp add: trimmed_def)
next
  case (Cons p ps')
  then have ne: "ps \<noteq> []" by simp
  have "hd ps \<in> set ps" "last ps \<in> set ps" using ne by simp_all
  with assms have "hd ps \<noteq> []" "trimmed (hd ps)" "last ps \<noteq> []" "trimmed (last ps)" by blast+
  then show ?thesis using hd_join [OF ne, of sep] last_join [OF ne, of sep]
    by (auto simp: trimmed_def)
qed

lemma strip_fixed_trimmed: "strip p = p \<Longrightarrow> trimmed p"
  using trimmed_strip [of p] by simp

lemma clean_append_text: "clean ps \<Longrightarrow> clean (append_text ps (strip t))"
  by (auto simp: clean_def append_text_def strip_trimmed trimmed_strip)

lemma clean_fence: "clean ps \<Longrightarrow> clean (ps @ [fence label text])"
  by (auto simp: clean_def fence_nonempty strip_trimmed trimmed_fence)

lemma clean_extract_item: "clean (fst st) \<Longrightarrow> clean (fst (extract_item L cfg st item))"
  by (cases st)
     (auto simp: extract_item_def tool_use_item_def tool_result_item_def Let_def
        clean_append_text clean_fence split: json.splits)

lemma clean_foldl: "clean (fst st) \<Longrightarrow> clean (fst (foldl (extract_item L cfg) st items))"
  by (induction items arbitrary: st) (auto simp: clean_extract_item)

lemma extract_item_plain:
  "plain_item item \<Longrightarrow>
   extract_item L cfg st item = (append_text (fst st) (strip (coerce_text L item)), snd st)"
  by (cases item) (auto simp: extract_item_def plain_item_def recognized_types_def Let_def)

lemma foldl_extract_plain:
  "\<forall>item\<in>set items. plain_item item \<Longrightarrow>
   foldl (extract_item L cfg) (parts, ids) items =
     (parts @ filter (\<lambda>t. t \<noteq> []) (map (\<lambda>v. strip (coerce_text L v)) items), ids)"
  by (induction items arbitrary: parts) (auto simp: extract_item_plain append_text_def)

text \<open>
  C7 as stated fails below the top level: the two fragments of a nested sequence are one
  newline apart, not a blank line apart.
\<close>

theorem nested_sequence_single_newline:
  "fst (extract_body demo_lib plain (JArr [JArr [JStr ''a'', JStr ''b'']]) (tool_use_ids initial_state))
     = ''a'' @ NL @ ''b'' \<and>
   ''a'' @ NL @ ''b'' \<noteq> ''a'' @ NL @ NL @ ''b'' \<and>
   fst (extract_body demo_lib plain (JArr [JStr ''a'', JStr ''b'']) (tool_use_ids initial_state))
     = ''a'' @ NL @ NL @ ''b''"
  by (simp add: run_defs)

text \<open>
  C8, as the code has it. A mapping without a recognised type tag among the items of a
  content sequence leaves the trimmed text of the mapping when that is not empty, and so
  does a mapping that is the whole content value. The text of a mapping is: its \<^verbatim>\<open>text\<close>
  value when that is a string; otherwise the normalisation of its \<^verbatim>\<open>content\<close> value when
  the key is present; otherwise the whole mapping pretty-printed.
\<close>

theorem untagged_mapping_rule:
  assumes "dict_get kvs ''type'' \<notin> recognized_types"
  shows "extract_item L cfg (parts, ids) (JObj kvs)
           = (append_text parts (strip (coerce_text L (JObj kvs))), ids) \<and>
         extract_body L cfg (JObj kvs) ids = (strip (coerce_text L (JObj kvs)), ids) \<and>
         coerce_text L (JObj kvs) =
           (case str_of (dict_get kvs ''text'') of
              Some t \<Rightarrow> t
            | None \<Rightarrow>
                (case map_of kvs ''content'' of
                   Some c \<Rightarrow> coerce_text L c
                 | None \<Rightarrow> dumps L (JObj kvs)))"
proof -
  have "plain_item (JObj kvs)" using assms by (simp add: plain_item_def)
  then show ?thesis by (simp add: extract_item_plain extract_body_def)
qed

theorem untagged_mapping_rule_witness:
  "dict_get wrapper_fields ''type'' \<notin> recognized_types \<and>
   extract_item demo_lib plain ([''x''], tool_use_ids initial_state) (JObj wrapper_fields)
     = ([''x'', ''a'' @ NL @ ''b''], tool_use_ids initial_state) \<and>
   coerce_text demo_lib (JObj wrapper_fields) = coerce_text demo_lib (JArr [JStr ''a'', JStr ''b''])"
proof -
  have h: "dict_get wrapper_fields ''type'' \<notin> recognized_types"
    by (simp add: wrapper_fields_def recognized_types_def dict_get_def)
  have e: "coerce_text demo_lib (JObj wrapper_fields) = ''a'' @ NL @ ''b''"
    "coerce_text demo_lib (JArr [JStr ''a'', JStr ''b'']) = ''a'' @ NL @ ''b''"
    by (simp_all add: wrapper_fields_def run_defs)
  from untagged_mapping_rule [OF h, of demo_lib plain "[''x'']" "tool_use_ids initial_state"]
  have "extract_item demo_lib plain ([''x''], tool_use_ids initial_state) (JObj wrapper_fields)
     = (append_text [''x''] (strip (coerce_text demo_lib (JObj wrapper_fields))), tool_use_ids initial_state)"
    by blast
  then have x: "extract_item demo_lib plain ([''x''], tool_use_ids initial_state) (JObj wrapper_fields)
     = ([''x'', ''a'' @ NL @ ''b''], tool_use_ids initial_state)"
    unfolding e by (simp add: run_defs)
  show ?thesis using h x e by simp
qed

text \<open>
  C8 as stated fails: a mapping without a type tag that has both a \<^verbatim>\<open>text\<close> string and a
  \<^verbatim>\<open>content\<close> key yields the text, not the normalised content; and one with only a
  \<^verbatim>\<open>text\<close> string is not pretty-printed.
\<close>

theorem text_key_wins_over_content:
  "dict_get titled_fields ''type'' = JNull \<and>
   map_of titled_fields ''content'' = Some (JStr ''x'') \<and>
   coerce_text demo_lib (JStr ''x'') = ''x'' \<and>
   coerce_text demo_lib (JObj titled_fields) = ''hi'' \<and>
   fst (extract_body demo_lib plain (JObj titled_fields) (tool_use_ids initial_state)) = ''hi'' \<and>
   fst (extract_body demo_lib plain (JArr [JObj titled_fields]) (tool_use_ids initial_state)) = ''hi'' \<and>
   map_of [(''text'', JStr ''hi'')] ''content'' = None \<and>
   coerce_text demo_lib (JObj [(''text'', JStr ''hi'')]) = ''hi'' \<and>
   dumps demo_lib (JObj [(''text'', JStr ''hi'')]) = ''{}''"
  by (simp add: run_defs titled_fields_def demo_lib_def)

section \<open>The excluded set only grows\<close>

lemma filtered_use_recorded:
  assumes "include_tools cfg" and "dict_get use ''type'' = JStr ''tool_use''"
    and "dict_get use ''id'' = JStr t" and "t \<noteq> []" and "name_filtered L cfg use"
  shows "extract_item L cfg (parts, ids) (JObj use) = (parts, ids\<lparr>excluded_ids := insert t (excluded_ids ids)\<rparr>)"
  using assms
  by (auto simp: extract_item_def tool_use_item_def name_filtered_def tool_name_def add_id_def Let_def)

lemma add_id_mono: "ids \<subseteq> add_id v ids"
  by (auto simp: add_id_def split: option.splits)

lemma extract_item_excluded_mono:
  "excluded_ids (snd st) \<subseteq> excluded_ids (snd (extract_item L cfg st item))"
  using add_id_mono
  by (cases st)
     (auto simp: extract_item_def tool_use_item_def tool_result_item_def Let_def split: json.splits)

lemma foldl_excluded_mono:
  "excluded_ids (snd st) \<subseteq> excluded_ids (snd (foldl (extract_item L cfg) st items))"
proof (induction items arbitrary: st)
  case Nil
  show ?case by simp
next
  case (Cons item items)
  from extract_item_excluded_mono [of st L cfg item] Cons [of "extract_item L cfg st item"]
  show ?case by auto
qed

lemma excluded_result_dropped:
  assumes "dict_get res ''type'' = JStr ''tool_result''" and "dict_get res ''tool_use_id'' = JStr t"
    and "t \<in> excluded_ids (snd st)"
  shows "extract_item L cfg st (JObj res) = st"
  using assms by (cases st) (simp add: extract_item_def tool_result_item_def)

lemma foldl_result_dropped:
  assumes "dict_get res ''type'' = JStr ''tool_result''" and "dict_get res ''tool_use_id'' = JStr t"
    and "t \<in> excluded_ids (snd st)"
  shows "foldl (extract_item L cfg) st (us @ JObj res # vs) = foldl (extract_item L cfg) st (us @ vs)"
proof -
  have "t \<in> excluded_ids (snd (foldl (extract_item L cfg) st us))"
    using foldl_excluded_mono [of st L cfg us] assms(3) by auto
  from excluded_result_dropped [OF assms(1,2) this] show ?thesis by simp
qed

lemma extract_body_JArr:
  "extract_body L cfg (JArr items) ids =
     (strip (join (NL @ NL) (fst (foldl (extract_item L cfg) ([], ids) items))),
      snd (foldl (extract_item L cfg) ([], ids) items))"
  by (simp add: extract_body_def case_prod_unfold Let_def)

lemma extract_body_excluded_mono:
  "excluded_ids ids \<subseteq> excluded_ids (snd (extract_body L cfg content ids))"
proof (cases content)
  case (JArr items)
  with foldl_excluded_mono [of "([], ids)" L cfg items] show ?thesis
    by (simp add: extract_body_JArr)
qed (simp_all add: extract_body_def)

lemma extract_body_result_dropped:
  assumes "dict_get res ''type'' = JStr ''tool_result''" and "dict_get res ''tool_use_id'' = JStr t"
    and "t \<in> excluded_ids ids"
  shows "extract_body L cfg (JArr (us @ JObj res # vs)) ids = extract_body L cfg (JArr (us @ vs)) ids"
  using foldl_result_dropped [OF assms(1,2), of "([], ids)" L cfg us vs] assms(3)
  by (simp add: extract_body_JArr)

lemma extract_body_use_recorded:
  assumes "include_tools cfg" and "dict_get use ''type'' = JStr ''tool_use''"
    and "dict_get use ''id'' = JStr t" and "t \<noteq> []" and "name_filtered L cfg use"
  shows "t \<in> excluded_ids (snd (extract_body L cfg (JArr (xs @ JObj use # ys)) ids))"
proof -
  obtain parts ids' where a: "foldl (extract_item L cfg) ([], ids) xs = (parts, ids')"
    by (cases "foldl (extract_item L cfg) ([], ids) xs")
  have "t \<in> excluded_ids (snd (extract_item L cfg (parts, ids') (JObj use)))"
    by (simp add: filtered_use_recorded [OF assms])
  with foldl_excluded_mono [of "extract_item L cfg (parts, ids') (JObj use)" L cfg ys]
  have "t \<in> excluded_ids (snd (foldl (extract_item L cfg) ([], ids) (xs @ JObj use # ys)))"
    by (auto simp: a)
  then show ?thesis by (simp only: extract_body_JArr snd_conv)
qed

lemma process_message_excluded_mono:
  assumes "process_message L cfg st event et = Inr st'"
  shows "excluded_ids (tool_use_ids st) \<subseteq> excluded_ids (tool_use_ids st')"
  using assms
proof (cases rule: process_message_cases)
  case (silent message r ids)
  from silent(3) have "ids = snd (extract_body L cfg (dict_get message ''content'') (tool_use_ids st))"
    by simp
  with extract_body_excluded_mono [of "tool_use_ids st" L cfg "dict_get message ''content''"] silent(4)
  show ?thesis by simp
next
  case (emitted message r b ids)
  from emitted(3) have "ids = snd (extract_body L cfg (dict_get message ''content'') (tool_use_ids st))"
    by simp
  with extract_body_excluded_mono [of "tool_use_ids st" L cfg "dict_get message ''content''"] emitted(5)
  show ?thesis by simp
qed simp

lemma process_line_excluded_mono:
  assumes "process_line L cfg st n line = Inr st'"
  shows "excluded_ids (tool_use_ids st) \<subseteq> excluded_ids (tool_use_ids st')"
  using assms
proof (cases rule: process_line_cases)
  case (event ev)
  from event(3) show ?thesis
  proof (cases rule: process_event_cases)
    case (message event' et)
    from process_message_excluded_mono [OF message(4)] show ?thesis by simp
  qed simp
qed simp_all

lemma iter_lines_excluded_mono:
  "iter_lines L cfg st n lines = Inr st' \<Longrightarrow>
   excluded_ids (tool_use_ids st) \<subseteq> excluded_ids (tool_use_ids st')"
proof (induction lines arbitrary: st n)
  case Nil
  then show ?case by simp
next
  case (Cons line rest)
  then obtain mid where "process_line L cfg st n line = Inr mid" "iter_lines L cfg mid (Suc n) rest = Inr st'"
    by (auto split: sum.splits)
  with Cons.IH [of mid "Suc n"] process_line_excluded_mono [of L cfg st n line mid]
  show ?case by blast
qed

text \<open>The event that holds the filtered \<^verbatim>\<open>tool_use\<close> leaves its identifier in the excluded set.\<close>

lemma process_event_use_recorded:
  assumes "include_tools cfg" and "dict_get use ''type'' = JStr ''tool_use''"
    and "dict_get use ''id'' = JStr t" and "t \<noteq> []" and "name_filtered L cfg use"
    and "dict_get event ''type'' = JStr ''user'' \<or> dict_get event ''type'' = JStr ''assistant''"
    and "dict_get event ''message'' = JObj message"
    and "dict_get message ''content'' = JArr (xs @ JObj use # ys)"
    and "process_event L cfg st (JObj event) = Inr st'"
  shows "t \<in> excluded_ids (tool_use_ids st')"
  using assms(9)
proof (cases rule: process_event_cases)
  case (other event')
  with assms(6) show ?thesis by auto
next
  case (message event' et)
  then have ev: "event' = event" by simp
  from message(4) show ?thesis unfolding ev
  proof (cases rule: process_message_cases)
    case no_message
    with assms(7) show ?thesis by simp
  next
    case (silent message' r ids)
    with assms(7,8) have "ids = snd (extract_body L cfg (JArr (xs @ JObj use # ys))
        (tool_use_ids (collect_event_fields event (track_timestamp (dict_get event ''timestamp'') st))))"
      by simp
    with extract_body_use_recorded [OF assms(1-5)] silent(4) show ?thesis by simp
  next
    case (emitted message' r b ids)
    with assms(7,8) have "ids = snd (extract_body L cfg (JArr (xs @ JObj use # ys))
        (tool_use_ids (collect_event_fields event (track_timestamp (dict_get event ''timestamp'') st))))"
      by simp
    with extract_body_use_recorded [OF assms(1-5)] emitted(5) show ?thesis by simp
  qed
qed

lemma process_event_same_but_content:
  assumes "same_but_content event event' content content'"
    and "\<And>ids. t \<in> excluded_ids ids \<Longrightarrow> extract_body L cfg content ids = extract_body L cfg content' ids"
    and "t \<in> excluded_ids (tool_use_ids st)"
  shows "process_event L cfg st (JObj event) = process_event L cfg st (JObj event')"
proof -
  from assms(1) obtain message message' where m:
    "dict_get event ''message'' = JObj message" "dict_get event' ''message'' = JObj message'"
    "dict_get message ''content'' = content" "dict_get message' ''content'' = content'"
    "dict_get message' ''model'' = dict_get message ''model''"
    "dict_get message' ''usage'' = dict_get message ''usage''"
    "dict_get message' ''role'' = dict_get message ''role''"
    "dict_get message' ''timestamp'' = dict_get message ''timestamp''"
    and e: "dict_get event' ''type'' = dict_get event ''type''"
    "dict_get event' ''timestamp'' = dict_get event ''timestamp''"
    "dict_get event' ''sessionId'' = dict_get event ''sessionId''"
    "dict_get event' ''version'' = dict_get event ''version''"
    "dict_get event' ''cwd'' = dict_get event ''cwd''"
    "dict_get event' ''gitBranch'' = dict_get event ''gitBranch''"
    unfolding same_but_content_def by blast
  have c: "collect_event_fields event' s = collect_event_fields event s" for s
    by (simp add: collect_event_fields_def e)
  have pm: "process_message L cfg s event et = process_message L cfg s event' et"
    if "t \<in> excluded_ids (tool_use_ids s)" for s et
    by (simp add: process_message_def m e assms(2) [OF that] Let_def case_prod_unfold split: sum.splits)
  have "t \<in> excluded_ids (tool_use_ids (collect_event_fields event (track_timestamp (dict_get event ''timestamp'') st)))"
    using assms(3) by simp
  from pm [OF this] show ?thesis
    by (simp add: process_event_def e c Let_def split: json.splits)
qed

section \<open>Usage totals\<close>

lemma add_usage_leaves:
  "add_usage prefix v uc
     = fold add_total (map (\<lambda>(path, n). (foldl next_prefix prefix path, n)) (usage_leaves v)) uc"
  "add_usage_items prefix kvs uc
     = fold add_total (map (\<lambda>(path, n). (foldl next_prefix prefix path, n)) (usage_leaves_items kvs)) uc"
proof (induction prefix v uc and prefix kvs uc rule: add_usage_add_usage_items.induct)
  case (3 prefix n uc)
  show ?case by simp
next
  case (9 prefix key nested rest uc)
  let ?uc = "add_usage (next_prefix prefix key) nested uc"
  have "add_usage_items prefix ((key, nested) # rest) uc = add_usage_items prefix rest ?uc"
    by simp
  also have "\<dots> = fold add_total
       (map (\<lambda>(path, n). (foldl next_prefix prefix path, n)) (usage_leaves_items rest)) ?uc"
    by (rule "9.IH"(2))
  also have "?uc = fold add_total
       (map (\<lambda>(path, n). (foldl next_prefix (next_prefix prefix key) path, n)) (usage_leaves nested)) uc"
    by (rule "9.IH"(1))
  finally show ?case
    by (simp add: comp_def case_prod_unfold)
qed simp_all

lemma add_usage_keyed: "add_usage [] usage uc = fold add_total (keyed_leaves usage) uc"
  by (simp add: add_usage_leaves keyed_leaves_def key_path_def)

lemma foldl_next_prefix:
  "prefix \<noteq> [] \<Longrightarrow> [] \<notin> set path \<Longrightarrow>
   foldl next_prefix prefix path = (if path = [] then prefix else prefix @ ''.'' @ join ''.'' path)"
proof (induction path arbitrary: prefix)
  case Nil
  show ?case by simp
next
  case (Cons key path)
  then have k: "key \<noteq> []" and p: "[] \<notin> set path" by auto
  have "foldl next_prefix prefix (key # path) = foldl next_prefix (prefix @ ''.'' @ key) path"
    using Cons.prems(1) by (simp add: next_prefix_def)
  also have "\<dots> = (if path = [] then prefix @ ''.'' @ key
                     else (prefix @ ''.'' @ key) @ ''.'' @ join ''.'' path)"
    using p by (intro Cons.IH) simp_all
  also have "\<dots> = prefix @ ''.'' @ join ''.'' (key # path)"
    by (cases path) simp_all
  finally show ?case by simp
qed

lemma key_path_join: "[] \<notin> set path \<Longrightarrow> key_path path = join ''.'' path"
proof (cases path)
  case Nil
  then show ?thesis by (simp add: key_path_def)
next
  case (Cons key rest)
  assume "[] \<notin> set path"
  with Cons have "key \<noteq> []" "[] \<notin> set rest" by auto
  from foldl_next_prefix [OF this] Cons show ?thesis
    by (cases rest) (simp_all add: key_path_def next_prefix_def)
qed

lemma add_total_commute: "add_total a (add_total b uc) = add_total b (add_total a uc)"
  by (cases a, cases b) (auto simp: fun_eq_iff)

lemma filter_key_absent:
  "(\<forall>leaf\<in>set leaves. k \<noteq> fst leaf) \<Longrightarrow> filter (\<lambda>leaf. fst leaf = k) leaves = []"
  by (induction leaves) auto

lemma fold_add_total_lookup:
  "fold add_total leaves uc k =
     (if k \<in> fst ` set leaves
      then Some ((case uc k of None \<Rightarrow> 0 | Some c \<Rightarrow> c)
                 + sum_list (map snd (filter (\<lambda>leaf. fst leaf = k) leaves)))
      else uc k)"
proof (induction leaves arbitrary: uc)
  case Nil
  show ?case by simp
next
  case (Cons leaf leaves)
  obtain k' n where leaf: "leaf = (k', n)" by (cases leaf)
  show ?case unfolding leaf by (simp add: Cons.IH image_iff filter_key_absent)
qed

lemma fold_add_usage:
  "fold (add_usage []) us uc = fold add_total (concat (map keyed_leaves us)) uc"
  by (induction us arbitrary: uc) (simp_all add: add_usage_keyed)

lemma fold_add_total_mset:
  assumes "mset xs = mset ys"
  shows "fold add_total xs = fold add_total ys"
  by (rule fold_multiset_equiv [OF _ assms]) (simp add: fun_eq_iff add_total_commute)

lemma collect_usage_usage:
  "usage_records (collect_usage u st) = usage_records st + (case u of JObj kvs \<Rightarrow> 1 | _ \<Rightarrow> 0)"
  "usage_counts (collect_usage u st) = (case u of JObj kvs \<Rightarrow> add_usage [] u (usage_counts st) | _ \<Rightarrow> usage_counts st)"
  by (simp_all add: collect_usage_def split: json.splits)

lemma process_event_usage:
  assumes "process_event L cfg st ev = Inr st'"
  shows "bump_usage (event_usage ev) st st'"
  using assms
proof (cases rule: process_event_cases)
  case (other event)
  then show ?thesis by (auto simp: bump_usage_def event_usage_def)
next
  case (message event et)
  from message(4) show ?thesis
  proof (cases rule: process_message_cases)
    case no_message
    with message(1,2,3) show ?thesis
      by (auto simp: bump_usage_def event_usage_def split: json.splits)
  next
    case (silent msg r ids)
    with message(1,2,3) show ?thesis
      by (auto simp: bump_usage_def event_usage_def collect_usage_usage split: json.splits)
  next
    case (emitted msg r b ids)
    with message(1,2,3) show ?thesis
      by (auto simp: bump_usage_def event_usage_def collect_usage_usage split: json.splits)
  qed
qed

lemma process_line_usage:
  assumes "process_line L cfg st n line = Inr st'"
  shows "bump_usage (line_usage L line) st st'"
  using assms
proof (cases rule: process_line_cases)
  case (event ev)
  with process_event_usage [OF event(3)] show ?thesis by (simp add: line_usage_def)
qed (simp_all add: bump_usage_def line_usage_def)

lemma iter_lines_usage:
  "iter_lines L cfg st n lines = Inr st' \<Longrightarrow>
   usage_records st' = usage_records st + length (usages L lines) \<and>
   usage_counts st' = fold (add_usage []) (usages L lines) (usage_counts st)"
proof (induction lines arbitrary: st n)
  case Nil
  then show ?case by (simp add: usages_def)
next
  case (Cons line rest)
  then obtain mid where m: "process_line L cfg st n line = Inr mid"
    "iter_lines L cfg mid (Suc n) rest = Inr st'"
    by (auto split: sum.splits)
  from process_line_usage [OF m(1)] Cons.IH [OF m(2)] show ?case
    by (cases "line_usage L line") (simp_all add: usages_def bump_usage_def map_filter_simps)
qed

lemma process_line_error:
  "process_line L cfg st n line = Inl err \<longleftrightarrow> line_error L line = Some err"
  by (auto simp: process_line_def process_event_def process_message_def line_error_def event_error_def
        Let_def case_prod_unfold
        split: sum.splits py_error.splits json.splits if_splits)

lemma iter_lines_returns:
  "(\<exists>st'. iter_lines L cfg st n lines = Inr st') \<longleftrightarrow> (\<forall>line\<in>set lines. line_error L line = None)"
proof (induction lines arbitrary: st n)
  case Nil
  show ?case by simp
next
  case (Cons line rest)
  show ?case
  proof (cases "process_line L cfg st n line")
    case (Inl err)
    with process_line_error [of L cfg st n line err] show ?thesis by auto
  next
    case (Inr mid)
    have "line_error L line = None"
    proof (cases "line_error L line")
      case (Some err)
      with process_line_error [of L cfg st n line err] Inr show ?thesis by simp
    qed simp
    with Inr Cons.IH [of mid "Suc n"] show ?thesis by simp
  qed
qed

lemma mset_usages: "mset lines' = mset lines \<Longrightarrow> mset (usages L lines') = mset (usages L lines)"
  by (simp add: usages_def map_filter_def)

lemma mset_concat_map: "mset xs = mset ys \<Longrightarrow> mset (concat (map f xs)) = mset (concat (map f ys))"
proof -
  assume a: "mset xs = mset ys"
  have "mset (concat (map f zs)) = sum_mset (image_mset (\<lambda>z. mset (f z)) (mset zs))" for zs
    by (induction zs) simp_all
  then show ?thesis using a by simp
qed

text \<open>
  C4. Summing a usage mapping adds every integer leaf to the total kept under the leaf's
  key path, and nothing else: a boolean, a float, a string, null and a list are skipped.
  The key path extends the prefix with a dot and the key, or is the key alone while the
  prefix is empty; for keys that are not empty it is the keys joined with dots. After a
  parse that returns, the record count is the number of lines whose \<^verbatim>\<open>user\<close> or
  \<^verbatim>\<open>assistant\<close> message carries a usage mapping, with or without integer leaves, and
  each total is the sum of the leaves with that key path over those mappings.
\<close>

theorem usage_summed:
  "add_usage [] usage uc = fold add_total (keyed_leaves usage) uc \<and>
   (\<forall>path. [] \<notin> set path \<longrightarrow> key_path path = join ''.'' path) \<and>
   (\<forall>res. iter_turns L cfg lines = Inr res \<longrightarrow>
      usage_records res = length (usages L lines) \<and>
      (\<forall>k. usage_counts res k =
             (if k \<in> fst ` set (concat (map keyed_leaves (usages L lines)))
              then Some (sum_list (map snd (filter (\<lambda>leaf. fst leaf = k)
                                             (concat (map keyed_leaves (usages L lines))))))
              else None)))"
proof -
  have "usage_records res = length (usages L lines) \<and>
      (\<forall>k. usage_counts res k =
             (if k \<in> fst ` set (concat (map keyed_leaves (usages L lines)))
              then Some (sum_list (map snd (filter (\<lambda>leaf. fst leaf = k)
                                             (concat (map keyed_leaves (usages L lines))))))
              else None))"
    if "iter_turns L cfg lines = Inr res" for res
  proof -
    from that have "iter_lines L cfg initial_state 1 lines = Inr res"
      by (simp add: iter_turns_def)
    from iter_lines_usage [OF this]
    have "usage_records res = length (usages L lines)"
      and "usage_counts res = fold add_total (concat (map keyed_leaves (usages L lines))) Map.empty"
      by (simp_all add: initial_state_def fold_add_usage)
    then show ?thesis by (simp add: fold_add_total_lookup)
  qed
  with add_usage_keyed key_path_join show ?thesis by blast
qed

theorem usage_summed_witness:
  "keyed_leaves usage_sample = [(''input_tokens'', 10), (''cache.read'', 5)] \<and>
   add_usage [] usage_sample Map.empty = fold add_total [(''input_tokens'', 10), (''cache.read'', 5)] Map.empty \<and>
   [] \<notin> set [''cache'', ''read''] \<and> key_path [''cache'', ''read''] = ''cache.read'' \<and>
   usages demo_lib [''G'', ''E'', ''S'', ''G''] = [usage_sample, JObj [], usage_sample] \<and>
   (\<exists>res. iter_turns demo_lib plain [''G'', ''E'', ''S'', ''G''] = Inr res \<and>
      usage_records res = 3 \<and>
      usage_counts res ''input_tokens'' = Some 20 \<and> usage_counts res ''cache.read'' = Some 10 \<and>
      usage_counts res ''cached'' = None \<and> usage_counts res ''tier'' = None)"
proof -
  let ?lines = "[''G'', ''E'', ''S'', ''G'']"
  note th = usage_summed [of usage_sample Map.empty demo_lib plain ?lines]
  have k: "keyed_leaves usage_sample = [(''input_tokens'', 10), (''cache.read'', 5)]"
    by (simp add: keyed_leaves_def key_path_def next_prefix_def usage_sample_def)
  have a: "add_usage [] usage_sample Map.empty = fold add_total [(''input_tokens'', 10), (''cache.read'', 5)] Map.empty"
    using th unfolding k by blast
  have n: "[] \<notin> set [''cache'', ''read'']" by simp
  from th n have "key_path [''cache'', ''read''] = join ''.'' [''cache'', ''read'']" by blast
  then have p: "key_path [''cache'', ''read''] = ''cache.read''" by simp
  have u: "usages demo_lib ?lines = [usage_sample, JObj [], usage_sample]"
    by (simp add: usages_def map_filter_simps line_usage_def event_usage_def run_defs demo_defs)
  obtain res where run: "iter_turns demo_lib plain ?lines = Inr res"
    by (simp add: run_defs demo_defs)
  from th run have r: "usage_records res = length (usages demo_lib ?lines)"
    and c: "\<And>k. usage_counts res k =
             (if k \<in> fst ` set (concat (map keyed_leaves (usages demo_lib ?lines)))
              then Some (sum_list (map snd (filter (\<lambda>leaf. fst leaf = k)
                                             (concat (map keyed_leaves (usages demo_lib ?lines))))))
              else None)"
    by blast+
  have e: "keyed_leaves (JObj []) = []" by (simp add: keyed_leaves_def)
  have r3: "usage_records res = 3" using r unfolding u by simp
  have c1: "usage_counts res ''input_tokens'' = Some 20" "usage_counts res ''cache.read'' = Some 10"
    "usage_counts res ''cached'' = None" "usage_counts res ''tier'' = None"
    unfolding c u by (simp_all add: k e)
  show ?thesis by (intro conjI exI [of _ res]) (fact k a n p u run r3 c1)+
qed

text \<open>
  C9. For an input whose parse returns, the parse of any reordering of its lines returns
  as well, with the same total for every key path and the same usage record count.
\<close>

theorem usage_order_independent:
  assumes "mset lines' = mset lines" and "iter_turns L cfg lines = Inr res"
  shows "\<exists>res'. iter_turns L cfg lines' = Inr res' \<and>
           usage_counts res' = usage_counts res \<and> usage_records res' = usage_records res"
proof -
  from assms(1) have s: "set lines' = set lines" by (rule mset_eq_setD)
  have "\<forall>line\<in>set lines. line_error L line = None"
    using assms(2) iter_lines_returns [of L cfg initial_state 1 lines] by (auto simp: iter_turns_def)
  with s have "\<forall>line\<in>set lines'. line_error L line = None" by simp
  then obtain res' where run': "iter_lines L cfg initial_state 1 lines' = Inr res'"
    using iter_lines_returns [of L cfg initial_state 1 lines'] by blast
  from assms(2) have run: "iter_lines L cfg initial_state 1 lines = Inr res"
    by (simp add: iter_turns_def)
  note u = mset_usages [OF assms(1), of L]
  from u have "size (mset (usages L lines')) = size (mset (usages L lines))" by simp
  then have len: "length (usages L lines') = length (usages L lines)" by simp
  have "fold add_total (concat (map keyed_leaves (usages L lines')))
      = fold add_total (concat (map keyed_leaves (usages L lines)))"
    by (intro fold_add_total_mset mset_concat_map u)
  with iter_lines_usage [OF run] iter_lines_usage [OF run'] len
  have "usage_counts res' = usage_counts res \<and> usage_records res' = usage_records res"
    by (simp add: fold_add_usage)
  with run' show ?thesis by (simp add: iter_turns_def)
qed

theorem usage_order_independent_witness:
  "mset [''U'', ''G'', ''E'', ''G''] = mset [''G'', ''E'', ''U'', ''G''] \<and>
   (\<exists>res. iter_turns demo_lib plain [''G'', ''E'', ''U'', ''G''] = Inr res \<and>
      usage_records res = 3 \<and> usage_counts res ''input_tokens'' = Some 20 \<and>
      (\<exists>res'. iter_turns demo_lib plain [''U'', ''G'', ''E'', ''G''] = Inr res' \<and>
         usage_counts res' = usage_counts res \<and> usage_records res' = usage_records res))"
proof -
  have m: "mset [''U'', ''G'', ''E'', ''G''] = mset [''G'', ''E'', ''U'', ''G'']"
    by (simp add: add_mset_commute)
  obtain res where run: "iter_turns demo_lib plain [''G'', ''E'', ''U'', ''G''] = Inr res"
    and out: "usage_records res = 3" "usage_counts res ''input_tokens'' = Some 20"
    by (simp add: run_defs demo_defs)
  from usage_order_independent [OF m run]
  obtain res' where run': "iter_turns demo_lib plain [''U'', ''G'', ''E'', ''G''] = Inr res'"
    "usage_counts res' = usage_counts res" "usage_records res' = usage_records res"
    by blast
  show ?thesis by (intro conjI exI [of _ res] exI [of _ res']) (fact m run out run')+
qed

section \<open>Emitted turns\<close>

lemma process_event_bodies:
  assumes "process_event L cfg st ev = Inr st'"
  shows "map body (turns st') =
           map body (turns st) @
             (case event_body L cfg (tool_use_ids st) ev of
                Some b \<Rightarrow> if b \<noteq> [] then [b] else []
              | None \<Rightarrow> [])"
  using assms
proof (cases rule: process_event_cases)
  case (other event)
  then show ?thesis by (auto simp: event_body_def)
next
  case (message event et)
  from message(4) show ?thesis
  proof (cases rule: process_message_cases)
    case no_message
    with message(1,2,3) show ?thesis
      by (auto simp: event_body_def split: json.splits)
  next
    case (silent msg r ids)
    with message(1,2,3) show ?thesis
      by (auto simp: event_body_def)
  next
    case (emitted msg r b ids)
    with message(1,2,3) show ?thesis
      by (auto simp: event_body_def)
  qed
qed

lemma process_line_bodies:
  assumes "process_line L cfg st n line = Inr st'"
  shows "map body (turns st') =
           map body (turns st) @ (if yields_turn L cfg (st, line) then [yielded_body L cfg (st, line)] else [])"
  using assms
proof (cases rule: process_line_cases)
  case (event ev)
  with process_event_bodies [OF event(3)] show ?thesis
    by (simp add: yields_turn_def yielded_body_def line_body_def split: option.splits)
qed (simp_all add: yields_turn_def yielded_body_def line_body_def)

lemma iter_lines_bodies:
  "iter_lines L cfg st n lines = Inr st' \<Longrightarrow>
   map body (turns st') =
     map body (turns st) @ map (yielded_body L cfg) (filter (yields_turn L cfg) (visited L cfg st n lines))"
proof (induction lines arbitrary: st n)
  case Nil
  then show ?case by simp
next
  case (Cons line rest)
  then obtain mid where m: "process_line L cfg st n line = Inr mid"
    "iter_lines L cfg mid (Suc n) rest = Inr st'"
    by (auto split: sum.splits)
  from process_line_bodies [OF m(1)] Cons.IH [OF m(2)] m(1) show ?case by simp
qed

lemma visited_all:
  "iter_lines L cfg st n lines = Inr st' \<Longrightarrow> map snd (visited L cfg st n lines) = lines"
proof (induction lines arbitrary: st n)
  case Nil
  show ?case by simp
next
  case (Cons line rest)
  then obtain mid where m: "process_line L cfg st n line = Inr mid"
    "iter_lines L cfg mid (Suc n) rest = Inr st'"
    by (auto split: sum.splits)
  from Cons.IH [OF m(2)] m(1) show ?case by simp
qed

text \<open>
  C1. In a parse that returns, every line is reached, and the turns are, in order, the
  bodies of exactly the lines that yield one: the lines holding an event of type \<^verbatim>\<open>user\<close>
  or \<^verbatim>\<open>assistant\<close> whose message is a mapping and whose body, extracted with the
  correlation sets in force at that line, is not empty. So the number of turns is the
  number of such lines, and no turn has an empty body.
\<close>

theorem turns_are_nonempty_bodies:
  assumes "iter_turns L cfg lines = Inr res"
  shows "map snd (visited L cfg initial_state 1 lines) = lines \<and>
         map body (turns res)
           = map (yielded_body L cfg) (filter (yields_turn L cfg) (visited L cfg initial_state 1 lines)) \<and>
         length (turns res) = length (filter (yields_turn L cfg) (visited L cfg initial_state 1 lines)) \<and>
         (\<forall>t\<in>set (turns res). body t \<noteq> [])"
proof -
  from assms have run: "iter_lines L cfg initial_state 1 lines = Inr res"
    by (simp add: iter_turns_def)
  let ?v = "visited L cfg initial_state 1 lines"
  have b: "map body (turns res) = map (yielded_body L cfg) (filter (yields_turn L cfg) ?v)"
    using iter_lines_bodies [OF run] by (simp add: initial_state_def)
  then have "length (map body (turns res)) = length (map (yielded_body L cfg) (filter (yields_turn L cfg) ?v))"
    by (rule arg_cong)
  then have l: "length (turns res) = length (filter (yields_turn L cfg) ?v)" by simp
  have "\<forall>x\<in>set (map body (turns res)). x \<noteq> []"
    unfolding b by (auto simp: yields_turn_def yielded_body_def split: option.splits)
  then have n: "\<forall>t\<in>set (turns res). body t \<noteq> []" by simp
  from visited_all [OF run] b l n show ?thesis by blast
qed

theorem turns_are_nonempty_bodies_witness:
  "\<exists>res. iter_turns demo_lib plain [''U'', ''E'', ''S'', ''not json'', '' '', ''A''] = Inr res \<and>
     map body (turns res) = [''hi'', ''hello''] \<and>
     length (filter (yields_turn demo_lib plain)
               (visited demo_lib plain initial_state 1 [''U'', ''E'', ''S'', ''not json'', '' '', ''A''])) = 2 \<and>
     map snd (visited demo_lib plain initial_state 1 [''U'', ''E'', ''S'', ''not json'', '' '', ''A''])
       = [''U'', ''E'', ''S'', ''not json'', '' '', ''A''] \<and>
     line_body demo_lib plain (tool_use_ids initial_state) ''E'' = Some [] \<and>
     line_body demo_lib plain (tool_use_ids initial_state) ''S'' = None \<and>
     line_body demo_lib plain (tool_use_ids initial_state) ''U'' = Some ''hi''"
proof -
  let ?lines = "[''U'', ''E'', ''S'', ''not json'', '' '', ''A'']"
  obtain res where run: "iter_turns demo_lib plain ?lines = Inr res"
    and out: "map body (turns res) = [''hi'', ''hello'']"
    by (simp add: run_defs demo_defs)
  note th = turns_are_nonempty_bodies [OF run]
  from out have "length (map body (turns res)) = 2" by simp
  then have "length (turns res) = 2" by simp
  with th have c: "length (filter (yields_turn demo_lib plain) (visited demo_lib plain initial_state 1 ?lines)) = 2"
    by simp
  from th have v: "map snd (visited demo_lib plain initial_state 1 ?lines) = ?lines" by blast
  have b: "line_body demo_lib plain (tool_use_ids initial_state) ''E'' = Some []"
    "line_body demo_lib plain (tool_use_ids initial_state) ''S'' = None"
    "line_body demo_lib plain (tool_use_ids initial_state) ''U'' = Some ''hi''"
    by (simp_all add: line_body_def event_body_def run_defs demo_defs)
  show ?thesis by (intro conjI exI [of _ res]) (fact run out c v b)+
qed

section \<open>Fragments of a content sequence\<close>

lemma add_id_identifier: "add_id v ids = ids \<union> identifier_of v"
  by (cases v) (auto simp: add_id_def identifier_of_def)

lemma extract_item_fragment:
  "extract_item L cfg (parts, ids) item =
     (parts @ (case item_fragment L cfg ids item of Some fragment \<Rightarrow> [fragment] | None \<Rightarrow> []),
      item_ids L cfg ids item)"
proof (cases item)
  case (JObj kvs)
  show ?thesis
    unfolding JObj
    by (cases "dict_get kvs ''tool_use_id''")
       (auto simp: extract_item_def item_fragment_def item_ids_def tool_use_item_def tool_result_item_def
          name_filtered_def tool_name_def result_permitted_def nonblank_def append_text_def
          add_id_identifier Let_def)
qed (simp_all add: extract_item_def item_fragment_def item_ids_def nonblank_def append_text_def)

lemma foldl_extract_sequence:
  "foldl (extract_item L cfg) (parts, ids) items =
     (parts @ sequence_fragments L cfg ids items, sequence_ids L cfg ids items)"
  by (induction items arbitrary: parts ids) (simp_all add: extract_item_fragment)

lemma fragments_sequence: "fragments L cfg ids items = sequence_fragments L cfg ids items"
  by (simp add: fragments_def foldl_extract_sequence)

lemma clean_sequence_fragments: "clean (sequence_fragments L cfg ids items)"
  using clean_foldl [of "([], ids)" L cfg items] by (simp add: clean_def foldl_extract_sequence)

lemma strip_join_clean: "clean ps \<Longrightarrow> strip (join sep ps) = join sep ps"
  by (intro strip_trimmed trimmed_join) (auto simp: clean_def dest: strip_fixed_trimmed)

lemma extract_body_sequence:
  "extract_body L cfg (JArr items) ids =
     (join (NL @ NL) (sequence_fragments L cfg ids items), sequence_ids L cfg ids items)"
  by (simp add: extract_body_JArr foldl_extract_sequence strip_join_clean clean_sequence_fragments)

text \<open>
  C7, as the code has it. A sequence at the top level of a content value: every item
  leaves at most one fragment, the one its kind prescribes, and the correlation sets pass
  from item to item; the body is these fragments in order, joined with a blank line (each
  is non-empty and trimmed, so the final trim changes nothing). For items that are no
  tagged mapping the fragments are the trimmed normalisations that are not empty. A
  sequence below the top level joins the normalisations of its elements with a single
  newline, keeps them untrimmed and drops the ones that are blank.
\<close>

theorem sequence_joined:
  "extract_body L cfg (JArr items) ids
     = (join (NL @ NL) (sequence_fragments L cfg ids items), sequence_ids L cfg ids items) \<and>
   (\<forall>p\<in>set (sequence_fragments L cfg ids items). p \<noteq> [] \<and> strip p = p) \<and>
   ((\<forall>item\<in>set items. plain_item item) \<longrightarrow>
      sequence_fragments L cfg ids items = filter (\<lambda>t. t \<noteq> []) (map (\<lambda>v. strip (coerce_text L v)) items)) \<and>
   coerce_text L (JArr vs) = join NL (filter (\<lambda>c. strip c \<noteq> []) (map (coerce_text L) vs))"
proof -
  have 2: "\<forall>p\<in>set (sequence_fragments L cfg ids items). p \<noteq> [] \<and> strip p = p"
    using clean_sequence_fragments [of L cfg ids items] unfolding clean_def .
  have 3: "sequence_fragments L cfg ids items = filter (\<lambda>t. t \<noteq> []) (map (\<lambda>v. strip (coerce_text L v)) items)"
    if "\<forall>item\<in>set items. plain_item item"
    using foldl_extract_plain [OF that, of L cfg "[]" ids] by (simp add: foldl_extract_sequence)
  have 4: "coerce_text L (JArr vs) = join NL (filter (\<lambda>c. strip c \<noteq> []) (map (coerce_text L) vs))"
    by simp
  from extract_body_sequence [of L cfg items ids] 2 3 4 show ?thesis by blast
qed

theorem sequence_joined_witness:
  "list_all plain_item [JStr '' a '', JNull, JArr [JStr ''b'', JStr '' '', JStr ''c '']] \<and>
   sequence_fragments demo_lib plain (tool_use_ids initial_state)
       [JStr '' a '', JNull, JArr [JStr ''b'', JStr '' '', JStr ''c '']]
     = [''a'', ''b'' @ NL @ ''c''] \<and>
   extract_body demo_lib plain (JArr [JStr '' a '', JNull, JArr [JStr ''b'', JStr '' '', JStr ''c '']])
          (tool_use_ids initial_state)
     = (''a'' @ NL @ NL @ ''b'' @ NL @ ''c'', tool_use_ids initial_state) \<and>
   sequence_fragments demo_lib plain (tool_use_ids initial_state) [JStr ''intro'', thinking_note, done_text]
     = [''intro'', ''done''] \<and>
   extract_body demo_lib plain (JArr [JStr ''intro'', thinking_note, done_text]) (tool_use_ids initial_state)
     = (''intro'' @ NL @ NL @ ''done'', tool_use_ids initial_state) \<and>
   extract_body demo_lib with_thinking (JArr [JStr ''intro'', thinking_note, done_text]) (tool_use_ids initial_state)
     = (''intro'' @ NL @ NL @ fence ''thinking'' ''hm'' @ NL @ NL @ ''done'', tool_use_ids initial_state)"
proof -
  let ?items = "[JStr '' a '', JNull, JArr [JStr ''b'', JStr '' '', JStr ''c '']]"
  let ?mixed = "[JStr ''intro'', thinking_note, done_text]"
  let ?ids = "tool_use_ids initial_state"
  have h: "\<forall>item\<in>set ?items. plain_item item"
    by (simp add: plain_item_def)
  have l: "list_all plain_item ?items"
    using h by (simp only: list_all_iff)
  have e: "filter (\<lambda>t. t \<noteq> []) (map (\<lambda>v. strip (coerce_text demo_lib v)) ?items) = [''a'', ''b'' @ NL @ ''c'']"
    by (simp add: run_defs)
  note th = sequence_joined [of demo_lib plain ?items ?ids "[]"]
  from th h have f: "sequence_fragments demo_lib plain ?ids ?items = [''a'', ''b'' @ NL @ ''c'']"
    unfolding e by blast
  from th have "extract_body demo_lib plain (JArr ?items) ?ids
      = (join (NL @ NL) (sequence_fragments demo_lib plain ?ids ?items), sequence_ids demo_lib plain ?ids ?items)"
    by blast
  then have b: "extract_body demo_lib plain (JArr ?items) ?ids = (''a'' @ NL @ NL @ ''b'' @ NL @ ''c'', ?ids)"
    unfolding f by (simp add: item_ids_def)
  have g: "sequence_fragments demo_lib plain ?ids ?mixed = [''intro'', ''done'']"
    by (simp add: item_fragment_def item_ids_def nonblank_def thinking_note_def done_text_def plain_def
          dict_get_def strip_def isspace_def)
  from sequence_joined [of demo_lib plain ?mixed ?ids "[]"]
  have "extract_body demo_lib plain (JArr ?mixed) ?ids
      = (join (NL @ NL) (sequence_fragments demo_lib plain ?ids ?mixed), sequence_ids demo_lib plain ?ids ?mixed)"
    by blast
  then have m: "extract_body demo_lib plain (JArr ?mixed) ?ids = (''intro'' @ NL @ NL @ ''done'', ?ids)"
    unfolding g by (simp add: item_ids_def thinking_note_def done_text_def plain_def dict_get_def)
  have g': "sequence_fragments demo_lib with_thinking ?ids ?mixed = [''intro'', fence ''thinking'' ''hm'', ''done'']"
    by (simp add: item_fragment_def item_ids_def nonblank_def thinking_note_def done_text_def with_thinking_def
          dict_get_def strip_def isspace_def)
  from sequence_joined [of demo_lib with_thinking ?mixed ?ids "[]"]
  have "extract_body demo_lib with_thinking (JArr ?mixed) ?ids
      = (join (NL @ NL) (sequence_fragments demo_lib with_thinking ?ids ?mixed),
         sequence_ids demo_lib with_thinking ?ids ?mixed)"
    by blast
  then have m': "extract_body demo_lib with_thinking (JArr ?mixed) ?ids
      = (''intro'' @ NL @ NL @ fence ''thinking'' ''hm'' @ NL @ NL @ ''done'', ?ids)"
    unfolding g' by (simp add: item_ids_def thinking_note_def done_text_def with_thinking_def dict_get_def)
  show ?thesis by (intro conjI) (fact l f b g m m')+
qed

section \<open>A filtered tool use and its later result\<close>

text \<open>
  C2, as the code has it. Tool inclusion is enabled; a \<^verbatim>\<open>tool_use\<close> item at the top level
  of the content sequence of a \<^verbatim>\<open>user\<close> or \<^verbatim>\<open>assistant\<close> message has a non-empty string
  identifier and is excluded by name (its normalised name is missing from a non-empty
  allow-list, or is in the deny-list). Then the item leaves no fragment and its
  identifier is put in the excluded set; a \<^verbatim>\<open>tool_result\<close> item with that identifier later
  in the same sequence is dropped; and for a \<^verbatim>\<open>tool_result\<close> item with that identifier at
  the top level of the content sequence of the message of any later line, however many
  lines lie between, the whole parse is the parse of the input in which that item is
  absent from its sequence. A filtered \<^verbatim>\<open>tool_use\<close> whose identifier is empty or no string
  records nothing.
\<close>

theorem filtered_tool_use_excludes_later_result:
  assumes tools: "include_tools cfg"
    and use: "dict_get use ''type'' = JStr ''tool_use''" "dict_get use ''id'' = JStr t" "t \<noteq> []"
      "name_filtered L cfg use"
    and res: "dict_get res ''type'' = JStr ''tool_result''" "dict_get res ''tool_use_id'' = JStr t"
    and lineA: "strip lineA \<noteq> []" "loads L (strip lineA) = Inr (JObj eventA)"
      "dict_get eventA ''type'' = JStr ''user'' \<or> dict_get eventA ''type'' = JStr ''assistant''"
      "dict_get eventA ''message'' = JObj messageA"
      "dict_get messageA ''content'' = JArr (xs @ JObj use # ys)"
    and lineB: "strip lineB \<noteq> []" "loads L (strip lineB) = Inr (JObj eventB)"
    and lineB': "strip lineB' \<noteq> []" "loads L (strip lineB') = Inr (JObj eventB')"
    and same: "same_but_content eventB eventB' (JArr (us @ JObj res # vs)) (JArr (us @ vs))"
  shows "extract_item L cfg (parts, ids) (JObj use)
           = (parts, ids\<lparr>excluded_ids := insert t (excluded_ids ids)\<rparr>) \<and>
         extract_body L cfg (JArr (xs @ JObj use # ys @ JObj res # zs)) ids
           = extract_body L cfg (JArr (xs @ JObj use # ys @ zs)) ids \<and>
         iter_turns L cfg (pre @ lineA # mid @ lineB # post)
           = iter_turns L cfg (pre @ lineA # mid @ lineB' # post) \<and>
         (\<forall>other ps' ids'.
            dict_get other ''type'' = JStr ''tool_use'' \<and> name_filtered L cfg other \<and>
            nonempty_str (dict_get other ''id'') = None \<longrightarrow>
            extract_item L cfg (ps', ids') (JObj other) = (ps', ids'))"
proof -
  note rec = filtered_use_recorded [OF tools use]
  have 1: "extract_item L cfg (parts, ids) (JObj use)
           = (parts, ids\<lparr>excluded_ids := insert t (excluded_ids ids)\<rparr>)"
    by (rule rec)
  have 2: "extract_body L cfg (JArr (xs @ JObj use # ys @ JObj res # zs)) ids
           = extract_body L cfg (JArr (xs @ JObj use # ys @ zs)) ids"
  proof -
    obtain ps ids' where a: "foldl (extract_item L cfg) ([], ids) xs = (ps, ids')"
      by (cases "foldl (extract_item L cfg) ([], ids) xs")
    have "t \<in> excluded_ids (snd (extract_item L cfg (ps, ids') (JObj use)))"
      by (simp add: rec)
    from foldl_result_dropped [OF res this, of L cfg ys zs] show ?thesis
      by (simp add: extract_body_JArr a)
  qed
  have eqB: "process_line L cfg s n lineB = process_line L cfg s n lineB'"
    if "t \<in> excluded_ids (tool_use_ids s)" for s n
    using process_event_same_but_content [OF same extract_body_result_dropped [OF res] that]
    by (simp add: process_line_def lineB lineB')
  have recA: "t \<in> excluded_ids (tool_use_ids s')" if "process_line L cfg s n lineA = Inr s'" for s s' n
  proof -
    from that have "process_event L cfg s (JObj eventA) = Inr s'"
      by (simp add: process_line_def lineA)
    from process_event_use_recorded [OF tools use lineA(3,4,5) this] show ?thesis .
  qed
  have tail: "iter_lines L cfg s n (mid @ lineB # post) = iter_lines L cfg s n (mid @ lineB' # post)"
    if "t \<in> excluded_ids (tool_use_ids s)" for s n
  proof (cases "iter_lines L cfg s n mid")
    case (Inl err)
    then show ?thesis by (simp add: iter_lines_append)
  next
    case (Inr s2)
    from iter_lines_excluded_mono [OF Inr] that have "t \<in> excluded_ids (tool_use_ids s2)" by blast
    from eqB [OF this] Inr show ?thesis by (simp add: iter_lines_append)
  qed
  have 3: "iter_turns L cfg (pre @ lineA # mid @ lineB # post)
           = iter_turns L cfg (pre @ lineA # mid @ lineB' # post)"
  proof (cases "iter_lines L cfg initial_state 1 pre")
    case (Inl err)
    then show ?thesis by (simp add: iter_turns_def iter_lines_append)
  next
    case (Inr s0)
    show ?thesis
    proof (cases "process_line L cfg s0 (1 + length pre) lineA")
      case (Inl err)
      with Inr show ?thesis by (simp add: iter_turns_def iter_lines_append)
    next
      case s1: (Inr s1)
      from tail [OF recA [OF s1]] Inr s1 show ?thesis
        by (simp add: iter_turns_def iter_lines_append)
    qed
  qed
  have 4: "extract_item L cfg (ps', ids') (JObj other) = (ps', ids')"
    if "dict_get other ''type'' = JStr ''tool_use''" "name_filtered L cfg other"
      "nonempty_str (dict_get other ''id'') = None" for other ps' ids'
    using that tools
    by (auto simp: extract_item_def tool_use_item_def name_filtered_def tool_name_def add_id_def Let_def)
  from 1 2 3 4 show ?thesis by blast
qed

theorem filtered_tool_use_excludes_later_result_witness:
  "include_tools without_read \<and>
   dict_get read_use ''type'' = JStr ''tool_use'' \<and> dict_get read_use ''id'' = JStr ''t1'' \<and> ''t1'' \<noteq> [] \<and>
   name_filtered demo_lib without_read read_use \<and>
   dict_get read_result ''type'' = JStr ''tool_result'' \<and> dict_get read_result ''tool_use_id'' = JStr ''t1'' \<and>
   strip ''T'' \<noteq> [] \<and> loads demo_lib (strip ''T'') = Inr (JObj assistant_reads) \<and>
   dict_get assistant_reads ''type'' = JStr ''assistant'' \<and>
   dict_get assistant_reads ''message'' = JObj reads_message \<and>
   dict_get reads_message ''content'' = JArr ([] @ JObj read_use # []) \<and>
   strip ''R'' \<noteq> [] \<and> loads demo_lib (strip ''R'') = Inr (JObj user_result) \<and>
   strip ''D'' \<noteq> [] \<and> loads demo_lib (strip ''D'') = Inr (JObj user_done) \<and>
   same_but_content user_result user_done (JArr ([] @ JObj read_result # [done_text])) (JArr ([] @ [done_text])) \<and>
   extract_item demo_lib without_read ([], tool_use_ids initial_state) (JObj read_use)
     = ([], (tool_use_ids initial_state)\<lparr>excluded_ids := insert ''t1'' (excluded_ids (tool_use_ids initial_state))\<rparr>) \<and>
   iter_turns demo_lib without_read ([''U''] @ ''T'' # [''A''] @ ''R'' # [])
     = iter_turns demo_lib without_read ([''U''] @ ''T'' # [''A''] @ ''D'' # []) \<and>
   map_sum id (\<lambda>res. map body (turns res)) (iter_turns demo_lib without_read ([''U''] @ ''T'' # [''A''] @ ''R'' # []))
     = Inr [''hi'', ''hello'', ''done''] \<and>
   dict_get anon_use ''type'' = JStr ''tool_use'' \<and> name_filtered demo_lib without_read anon_use \<and>
   nonempty_str (dict_get anon_use ''id'') = None \<and>
   extract_item demo_lib without_read ([], tool_use_ids initial_state) (JObj anon_use)
     = ([], tool_use_ids initial_state)"
proof -
  have tools: "include_tools without_read" by (simp add: without_read_def)
  have use: "dict_get read_use ''type'' = JStr ''tool_use''" "dict_get read_use ''id'' = JStr ''t1''"
    "''t1'' \<noteq> []" "name_filtered demo_lib without_read read_use"
    by (simp_all add: name_filtered_def tool_name_def run_defs demo_defs)
  have res: "dict_get read_result ''type'' = JStr ''tool_result''"
    "dict_get read_result ''tool_use_id'' = JStr ''t1''"
    by (simp_all add: run_defs demo_defs)
  have lineA: "strip ''T'' \<noteq> []" "loads demo_lib (strip ''T'') = Inr (JObj assistant_reads)"
    "dict_get assistant_reads ''type'' = JStr ''user'' \<or> dict_get assistant_reads ''type'' = JStr ''assistant''"
    "dict_get assistant_reads ''message'' = JObj reads_message"
    "dict_get reads_message ''content'' = JArr ([] @ JObj read_use # [])"
    by (simp_all add: strip_def isspace_def dict_get_def demo_lib_def assistant_reads_def reads_message_def)
  have a: "dict_get assistant_reads ''type'' = JStr ''assistant''"
    by (simp add: dict_get_def assistant_reads_def)
  have lineB: "strip ''R'' \<noteq> []" "loads demo_lib (strip ''R'') = Inr (JObj user_result)"
    by (simp_all add: strip_def isspace_def demo_lib_def)
  have lineB': "strip ''D'' \<noteq> []" "loads demo_lib (strip ''D'') = Inr (JObj user_done)"
    by (simp_all add: strip_def isspace_def demo_lib_def)
  have same: "same_but_content user_result user_done (JArr ([] @ JObj read_result # [done_text])) (JArr ([] @ [done_text]))"
    by (simp add: same_but_content_def dict_get_def user_result_def user_done_def)
  note th = filtered_tool_use_excludes_later_result [OF tools use res lineA lineB lineB' same,
      of "[]" "tool_use_ids initial_state" "[]" "[''U'']" "[''A'']" "[]"]
  have c1: "extract_item demo_lib without_read ([], tool_use_ids initial_state) (JObj read_use)
     = ([], (tool_use_ids initial_state)\<lparr>excluded_ids := insert ''t1'' (excluded_ids (tool_use_ids initial_state))\<rparr>)"
    using th by blast
  have c3: "iter_turns demo_lib without_read ([''U''] @ ''T'' # [''A''] @ ''R'' # [])
     = iter_turns demo_lib without_read ([''U''] @ ''T'' # [''A''] @ ''D'' # [])"
    using th by blast
  have "map_sum id (\<lambda>res. map body (turns res)) (iter_turns demo_lib without_read ([''U''] @ ''T'' # [''A''] @ ''D'' # []))
     = Inr [''hi'', ''hello'', ''done'']"
    by (simp add: run_defs demo_defs)
  then have c4: "map_sum id (\<lambda>res. map body (turns res)) (iter_turns demo_lib without_read ([''U''] @ ''T'' # [''A''] @ ''R'' # []))
     = Inr [''hi'', ''hello'', ''done'']"
    unfolding c3 .
  have anon: "dict_get anon_use ''type'' = JStr ''tool_use''" "name_filtered demo_lib without_read anon_use"
    "nonempty_str (dict_get anon_use ''id'') = None"
    by (simp_all add: name_filtered_def tool_name_def anon_use_def run_defs demo_defs)
  from th anon have c5: "extract_item demo_lib without_read ([], tool_use_ids initial_state) (JObj anon_use)
     = ([], tool_use_ids initial_state)"
    by blast
  show ?thesis
    by (intro conjI) (fact tools use res lineA(1,2,4,5) a lineB lineB' same c1 c3 c4 anon c5)+
qed

text \<open>
  C2 as stated fails twice. A \<^verbatim>\<open>tool_result\<close> that is the whole content of a later
  message is rendered although its identifier is in the excluded set; and a use and a
  result that share the empty identifier are not correlated: the use is dropped under
  the deny-list and the result is rendered.
\<close>

theorem excluded_result_still_rendered:
  "include_tools without_read \<and> name_filtered more_lib without_read read_use \<and>
   dict_get read_use ''id'' = JStr ''t1'' \<and> dict_get read_result ''tool_use_id'' = JStr ''t1'' \<and>
   loads more_lib (strip ''T'') = Inr (JObj assistant_reads) \<and>
   loads more_lib (strip ''W'') = Inr (JObj user_whole_result) \<and>
   dict_get user_whole_result ''message'' = JObj whole_message \<and>
   dict_get whole_message ''content'' = JObj read_result \<and>
   map_sum id tool_use_ids (iter_turns more_lib without_read [''T'', ''W''])
     = Inr \<lparr>excluded_ids = {''t1''}, included_ids = {}\<rparr> \<and>
   map_sum id turns (iter_turns more_lib without_read [''T'', ''W''])
     = Inr [\<lparr>index = 1, role = ''User'', timestamp = JNull, body = ''file text''\<rparr>] \<and>
   name_filtered more_lib without_read anon_use \<and>
   dict_get anon_use ''id'' = JStr [] \<and> dict_get anon_result ''tool_use_id'' = JStr [] \<and>
   loads more_lib (strip ''T0'') = Inr (JObj assistant_anon) \<and>
   loads more_lib (strip ''R0'') = Inr (JObj user_anon) \<and>
   map_sum id tool_use_ids (iter_turns more_lib without_read [''T0'', ''R0''])
     = Inr \<lparr>excluded_ids = {}, included_ids = {}\<rparr> \<and>
   map_sum id turns (iter_turns more_lib without_read [''T0'', ''R0''])
     = Inr [\<lparr>index = 1, role = ''User'', timestamp = JNull, body = fence ''tool_result'' ''secret''\<rparr>]"
  by (simp add: name_filtered_def tool_name_def run_defs demo_defs more_defs)

section \<open>A tool result without a recorded use\<close>

lemma sequence_fragments_append:
  "sequence_fragments L cfg ids (xs @ ys)
     = sequence_fragments L cfg ids xs @ sequence_fragments L cfg (sequence_ids L cfg ids xs) ys"
  by (induction xs arbitrary: ids) simp_all

lemma sequence_ids_append:
  "sequence_ids L cfg ids (xs @ ys) = sequence_ids L cfg (sequence_ids L cfg ids xs) ys"
  by (induction xs arbitrary: ids) simp_all

lemma tool_result_item_ids:
  "dict_get res ''type'' = JStr ''tool_result'' \<Longrightarrow> item_ids L cfg ids (JObj res) = ids"
  by (simp add: item_ids_def)

lemma tool_result_item_fragment:
  "dict_get res ''type'' = JStr ''tool_result'' \<Longrightarrow>
   item_fragment L cfg ids (JObj res) =
     (if include_tools cfg \<and> result_permitted cfg ids (dict_get res ''tool_use_id'')
      then map_option (fence ''tool_result'') (nonblank (coerce_text L (dict_get res ''content'')))
      else None)"
  by (simp add: item_fragment_def)

lemma sequence_without_item:
  assumes "item_fragment L cfg (sequence_ids L cfg ids us) item = None"
    and "item_ids L cfg (sequence_ids L cfg ids us) item = sequence_ids L cfg ids us"
  shows "extract_body L cfg (JArr (us @ item # vs)) ids = extract_body L cfg (JArr (us @ vs)) ids"
  using assms by (simp add: extract_body_sequence sequence_fragments_append sequence_ids_append)

text \<open>
  C3, as the code has it. A \<^verbatim>\<open>tool_result\<close> item at the top level of a content
  sequence, with the correlation sets \<open>ids1\<close> the items before it leave. With tool inclusion enabled and a
  reference that is in neither set (or is no string), the item is excluded when the
  allow-list is not empty, and is rendered otherwise: its fence stands between the
  fragments of the items before and after it when its trimmed content is not empty.
  With a reference in the excluded set the item is excluded whatever the options.
  Excluded: the body and the sets are those of the sequence without the item.
\<close>

theorem unmatched_tool_result_default:
  assumes "dict_get res ''type'' = JStr ''tool_result''"
    and "ids1 = snd (extract_body L cfg (JArr us) ids)"
    and "result = strip (coerce_text L (dict_get res ''content''))"
  shows "((\<exists>t. dict_get res ''tool_use_id'' = JStr t \<and> t \<in> excluded_ids ids1) \<longrightarrow>
            extract_body L cfg (JArr (us @ JObj res # vs)) ids = extract_body L cfg (JArr (us @ vs)) ids) \<and>
         (include_tools cfg \<and>
          (\<forall>t. dict_get res ''tool_use_id'' = JStr t \<longrightarrow> t \<notin> excluded_ids ids1 \<and> t \<notin> included_ids ids1) \<longrightarrow>
            (if only_tools cfg \<noteq> {}
             then extract_body L cfg (JArr (us @ JObj res # vs)) ids = extract_body L cfg (JArr (us @ vs)) ids
             else extract_body L cfg (JArr (us @ JObj res # vs)) ids =
                    (join (NL @ NL)
                       (fragments L cfg ids us
                          @ (if result \<noteq> [] then [fence ''tool_result'' result] else [])
                          @ fragments L cfg ids1 vs),
                     snd (extract_body L cfg (JArr vs) ids1))))"
proof -
  have ids1: "ids1 = sequence_ids L cfg ids us"
    using assms(2) by (simp add: extract_body_sequence)
  note keep = tool_result_item_ids [OF assms(1), of L cfg ids1]
  note frag = tool_result_item_fragment [OF assms(1), of L cfg ids1]
  have a: "extract_body L cfg (JArr (us @ JObj res # vs)) ids = extract_body L cfg (JArr (us @ vs)) ids"
    if "dict_get res ''tool_use_id'' = JStr t" "t \<in> excluded_ids ids1" for t
  proof (rule sequence_without_item)
    show "item_fragment L cfg (sequence_ids L cfg ids us) (JObj res) = None"
      using that frag by (simp add: ids1 result_permitted_def)
    show "item_ids L cfg (sequence_ids L cfg ids us) (JObj res) = sequence_ids L cfg ids us"
      using keep by (simp add: ids1)
  qed
  have b: "extract_body L cfg (JArr (us @ JObj res # vs)) ids = extract_body L cfg (JArr (us @ vs)) ids"
    if "\<forall>t. dict_get res ''tool_use_id'' = JStr t \<longrightarrow> t \<notin> excluded_ids ids1 \<and> t \<notin> included_ids ids1"
      "only_tools cfg \<noteq> {}"
  proof (rule sequence_without_item)
    show "item_fragment L cfg (sequence_ids L cfg ids us) (JObj res) = None"
      using that frag by (cases "dict_get res ''tool_use_id''") (simp_all add: ids1 result_permitted_def)
    show "item_ids L cfg (sequence_ids L cfg ids us) (JObj res) = sequence_ids L cfg ids us"
      using keep by (simp add: ids1)
  qed
  have c: "extract_body L cfg (JArr (us @ JObj res # vs)) ids =
             (join (NL @ NL)
                (fragments L cfg ids us
                   @ (if result \<noteq> [] then [fence ''tool_result'' result] else [])
                   @ fragments L cfg ids1 vs),
              snd (extract_body L cfg (JArr vs) ids1))"
    if "include_tools cfg" "only_tools cfg = {}"
      "\<forall>t. dict_get res ''tool_use_id'' = JStr t \<longrightarrow> t \<notin> excluded_ids ids1 \<and> t \<notin> included_ids ids1"
  proof -
    have "result_permitted cfg ids1 (dict_get res ''tool_use_id'')"
      using that by (cases "dict_get res ''tool_use_id''") (simp_all add: result_permitted_def)
    with frag that(1)
    have "item_fragment L cfg ids1 (JObj res) = map_option (fence ''tool_result'') (nonblank (coerce_text L (dict_get res ''content'')))"
      by simp
    then have "(case item_fragment L cfg ids1 (JObj res) of Some fragment \<Rightarrow> [fragment] | None \<Rightarrow> [])
        = (if result \<noteq> [] then [fence ''tool_result'' result] else [])"
      by (simp add: nonblank_def assms(3))
    with keep show ?thesis
      by (simp add: extract_body_sequence sequence_fragments_append sequence_ids_append
            fragments_sequence ids1 [symmetric])
  qed
  from a b c show ?thesis by auto
qed

theorem unmatched_tool_result_default_witness:
  "dict_get read_result ''type'' = JStr ''tool_result'' \<and>
   dict_get read_result ''tool_use_id'' = JStr ''t1'' \<and>
   tool_use_ids initial_state = snd (extract_body demo_lib only_grep (JArr [JStr ''x'']) (tool_use_ids initial_state)) \<and>
   tool_use_ids initial_state = snd (extract_body demo_lib with_tools (JArr [JStr ''x'']) (tool_use_ids initial_state)) \<and>
   ''file text'' = strip (coerce_text demo_lib (dict_get read_result ''content'')) \<and>
   include_tools only_grep \<and> only_tools only_grep \<noteq> {} \<and>
   include_tools with_tools \<and> only_tools with_tools = {} \<and>
   ''t1'' \<notin> excluded_ids (tool_use_ids initial_state) \<and> ''t1'' \<notin> included_ids (tool_use_ids initial_state) \<and>
   extract_body demo_lib only_grep (JArr ([JStr ''x''] @ JObj read_result # [done_text])) (tool_use_ids initial_state)
     = (''x'' @ NL @ NL @ ''done'', tool_use_ids initial_state) \<and>
   extract_body demo_lib with_tools (JArr ([JStr ''x''] @ JObj read_result # [done_text])) (tool_use_ids initial_state)
     = (''x'' @ NL @ NL @ fence ''tool_result'' ''file text'' @ NL @ NL @ ''done'', tool_use_ids initial_state) \<and>
   \<lparr>excluded_ids = {''t1''}, included_ids = {''t1''}\<rparr>
     = snd (extract_body demo_lib with_tools (JArr [JStr ''x'']) \<lparr>excluded_ids = {''t1''}, included_ids = {''t1''}\<rparr>) \<and>
   ''t1'' \<in> excluded_ids \<lparr>excluded_ids = {''t1''}, included_ids = {''t1''}\<rparr> \<and>
   extract_body demo_lib with_tools (JArr ([JStr ''x''] @ JObj read_result # [done_text]))
       \<lparr>excluded_ids = {''t1''}, included_ids = {''t1''}\<rparr>
     = (''x'' @ NL @ NL @ ''done'', \<lparr>excluded_ids = {''t1''}, included_ids = {''t1''}\<rparr>)"
proof -
  let ?ids = "tool_use_ids initial_state"
  let ?set = "\<lparr>excluded_ids = {''t1''}, included_ids = {''t1''}\<rparr>"
  have h: "dict_get read_result ''type'' = JStr ''tool_result''"
    and r: "dict_get read_result ''tool_use_id'' = JStr ''t1''"
    by (simp_all add: dict_get_def read_result_def)
  have i: "?ids = snd (extract_body demo_lib only_grep (JArr [JStr ''x'']) ?ids)"
    "?ids = snd (extract_body demo_lib with_tools (JArr [JStr ''x'']) ?ids)"
    "?set = snd (extract_body demo_lib with_tools (JArr [JStr ''x'']) ?set)"
    by (simp_all add: run_defs)
  have c: "''file text'' = strip (coerce_text demo_lib (dict_get read_result ''content''))"
    by (simp add: run_defs read_result_def)
  have o: "include_tools only_grep" "only_tools only_grep \<noteq> {}"
    "include_tools with_tools" "only_tools with_tools = {}"
    by (simp_all add: only_grep_def with_tools_def)
  have n: "''t1'' \<notin> excluded_ids ?ids" "''t1'' \<notin> included_ids ?ids"
    by (simp_all add: initial_state_def)
  have fresh: "\<forall>t. dict_get read_result ''tool_use_id'' = JStr t \<longrightarrow>
      t \<notin> excluded_ids ?ids \<and> t \<notin> included_ids ?ids"
    using n by (simp add: r)
  have without: "extract_body demo_lib cfg (JArr ([JStr ''x''] @ [done_text])) ids = (''x'' @ NL @ NL @ ''done'', ids)"
    for cfg ids
    by (simp add: run_defs done_text_def)
  have fr: "fragments demo_lib with_tools ?ids [JStr ''x''] = [''x'']"
    "fragments demo_lib with_tools ?ids [done_text] = [''done'']"
    "snd (extract_body demo_lib with_tools (JArr [done_text]) ?ids) = ?ids"
    by (simp_all add: fragments_def run_defs done_text_def)
  note th1 = unmatched_tool_result_default [OF h i(1) c, of "[done_text]"]
  from th1 o(1) fresh
  have "if only_tools only_grep \<noteq> {}
        then extract_body demo_lib only_grep (JArr ([JStr ''x''] @ JObj read_result # [done_text])) ?ids
               = extract_body demo_lib only_grep (JArr ([JStr ''x''] @ [done_text])) ?ids
        else extract_body demo_lib only_grep (JArr ([JStr ''x''] @ JObj read_result # [done_text])) ?ids
               = (join (NL @ NL) (fragments demo_lib only_grep ?ids [JStr ''x'']
                    @ (if ''file text'' \<noteq> [] then [fence ''tool_result'' ''file text''] else [])
                    @ fragments demo_lib only_grep ?ids [done_text]),
                  snd (extract_body demo_lib only_grep (JArr [done_text]) ?ids))"
    by blast
  then have "extract_body demo_lib only_grep (JArr ([JStr ''x''] @ JObj read_result # [done_text])) ?ids
               = extract_body demo_lib only_grep (JArr ([JStr ''x''] @ [done_text])) ?ids"
    using o(2) by simp
  then have 1: "extract_body demo_lib only_grep (JArr ([JStr ''x''] @ JObj read_result # [done_text])) ?ids
     = (''x'' @ NL @ NL @ ''done'', ?ids)"
    unfolding without .
  note th2 = unmatched_tool_result_default [OF h i(2) c, of "[done_text]"]
  from th2 o(3) fresh
  have "if only_tools with_tools \<noteq> {}
        then extract_body demo_lib with_tools (JArr ([JStr ''x''] @ JObj read_result # [done_text])) ?ids
               = extract_body demo_lib with_tools (JArr ([JStr ''x''] @ [done_text])) ?ids
        else extract_body demo_lib with_tools (JArr ([JStr ''x''] @ JObj read_result # [done_text])) ?ids
               = (join (NL @ NL) (fragments demo_lib with_tools ?ids [JStr ''x'']
                    @ (if ''file text'' \<noteq> [] then [fence ''tool_result'' ''file text''] else [])
                    @ fragments demo_lib with_tools ?ids [done_text]),
                  snd (extract_body demo_lib with_tools (JArr [done_text]) ?ids))"
    by blast
  then have "extract_body demo_lib with_tools (JArr ([JStr ''x''] @ JObj read_result # [done_text])) ?ids
               = (join (NL @ NL) (fragments demo_lib with_tools ?ids [JStr ''x'']
                    @ (if ''file text'' \<noteq> [] then [fence ''tool_result'' ''file text''] else [])
                    @ fragments demo_lib with_tools ?ids [done_text]),
                  snd (extract_body demo_lib with_tools (JArr [done_text]) ?ids))"
    using o(4) by simp
  then have 2: "extract_body demo_lib with_tools (JArr ([JStr ''x''] @ JObj read_result # [done_text])) ?ids
     = (''x'' @ NL @ NL @ fence ''tool_result'' ''file text'' @ NL @ NL @ ''done'', ?ids)"
    unfolding fr by simp
  have e: "''t1'' \<in> excluded_ids ?set"
    by simp
  note th3 = unmatched_tool_result_default [OF h i(3) c, of "[done_text]"]
  from th3 r e
  have "extract_body demo_lib with_tools (JArr ([JStr ''x''] @ JObj read_result # [done_text])) ?set
     = extract_body demo_lib with_tools (JArr ([JStr ''x''] @ [done_text])) ?set"
    by blast
  then have 3: "extract_body demo_lib with_tools (JArr ([JStr ''x''] @ JObj read_result # [done_text])) ?set
     = (''x'' @ NL @ NL @ ''done'', ?set)"
    unfolding without .
  show ?thesis by (intro conjI) (fact h r i c o n 1 2 e 3)+
qed

text \<open>
  C3 as stated fails for a \<^verbatim>\<open>tool_result\<close> that is the whole content of a message: it
  is rendered with an allow-list active and a reference no \<^verbatim>\<open>tool_use\<close> recorded, and it
  is rendered with its reference in the excluded set.
\<close>

theorem whole_content_result_not_correlated:
  "dict_get read_result ''type'' = JStr ''tool_result'' \<and>
   dict_get read_result ''tool_use_id'' = JStr ''t1'' \<and>
   include_tools only_grep \<and> only_tools only_grep \<noteq> {} \<and>
   ''t1'' \<notin> excluded_ids (tool_use_ids initial_state) \<and> ''t1'' \<notin> included_ids (tool_use_ids initial_state) \<and>
   extract_body more_lib only_grep (JObj read_result) (tool_use_ids initial_state)
     = (''file text'', tool_use_ids initial_state) \<and>
   loads more_lib (strip ''W'') = Inr (JObj user_whole_result) \<and>
   dict_get user_whole_result ''message'' = JObj whole_message \<and>
   dict_get whole_message ''content'' = JObj read_result \<and>
   map_sum id turns (iter_turns more_lib only_grep [''W''])
     = Inr [\<lparr>index = 1, role = ''User'', timestamp = JNull, body = ''file text''\<rparr>] \<and>
   include_tools with_tools \<and>
   ''t1'' \<in> excluded_ids \<lparr>excluded_ids = {''t1''}, included_ids = {}\<rparr> \<and>
   extract_body more_lib with_tools (JObj read_result) \<lparr>excluded_ids = {''t1''}, included_ids = {}\<rparr>
     = (''file text'', \<lparr>excluded_ids = {''t1''}, included_ids = {}\<rparr>)"
  by (simp add: run_defs demo_defs more_defs)

section \<open>A malformed line, reported and skipped\<close>

lemma digit_char_code: "d < 10 \<Longrightarrow> of_char (digit_char d) = (48 + d :: nat)"
proof -
  assume "d < 10"
  then have "d \<in> {0, 1, 2, 3, 4, 5, 6, 7, 8, 9}" by auto
  then show ?thesis by (auto simp: digit_char_def)
qed

lemma digit_char_digit: "d < 10 \<Longrightarrow> digit_char d \<in> set ''0123456789''"
proof -
  assume "d < 10"
  then have "d \<in> {0, 1, 2, 3, 4, 5, 6, 7, 8, 9}" by auto
  then show ?thesis by (auto simp: digit_char_def)
qed

lemma decimal_value_snoc: "decimal_value (s @ [c]) = 10 * decimal_value s + (of_char c - 48)"
  by (simp add: decimal_value_def)

lemma decimal_str_nat: "decimal_value (str_nat n) = n"
proof (induction n rule: str_nat.induct)
  case (1 n)
  show ?case
  proof (cases "n < 10")
    case True
    then show ?thesis
      by (subst str_nat.simps) (simp add: decimal_value_def digit_char_code)
  next
    case False
    have "decimal_value (str_nat n) = decimal_value (str_nat (n div 10) @ [digit_char (n mod 10)])"
      using False by (subst str_nat.simps) simp
    also have "\<dots> = 10 * (n div 10) + n mod 10"
      using "1.IH" [OF False] by (simp add: decimal_value_snoc digit_char_code)
    finally show ?thesis by simp
  qed
qed

lemma digits_str_nat: "set (str_nat n) \<subseteq> set ''0123456789''"
proof (induction n rule: str_nat.induct)
  case (1 n)
  show ?case
  proof (cases "n < 10")
    case True
    with digit_char_digit [of n] show ?thesis
      by (subst str_nat.simps) simp
  next
    case False
    with "1.IH" [OF False] digit_char_digit [of "n mod 10"] show ?thesis
      by (subst str_nat.simps) simp
  qed
qed

text \<open>
  C5, as the code has it. A line that is not blank and that \<^verbatim>\<open>json.loads\<close> rejects with
  \<^verbatim>\<open>JSONDecodeError\<close>, at any position of the input: the state reached before it is
  handed on to the lines after it with nothing changed but the diagnostic; apart from
  what was printed, the run is the run on the input with that line blank; the diagnostic
  is in the output of a run that returns; and the diagnostic is the text
  \<^verbatim>\<open>Skipping invalid JSON line\<close>, the line's 1-based number in decimal digits, a colon and
  the decoder's message.
\<close>

theorem malformed_line_reported_and_skipped:
  assumes "strip bad \<noteq> []" and "loads L (strip bad) = Inl (JSONDecodeError exc)"
  shows "iter_turns L cfg (pre @ bad # post) =
           (case iter_lines L cfg initial_state 1 pre of
              Inl err \<Rightarrow> Inl err
            | Inr st \<Rightarrow>
                iter_lines L cfg (st\<lparr>stderr := stderr st @ [skip_message (length pre + 1) exc]\<rparr>)
                  (length pre + 2) post) \<and>
         quiet (iter_turns L cfg (pre @ bad # post)) = quiet (iter_turns L cfg (pre @ [] # post)) \<and>
         (\<forall>res. iter_turns L cfg (pre @ bad # post) = Inr res \<longrightarrow>
                skip_message (length pre + 1) exc \<in> set (stderr res)) \<and>
         skip_message (length pre + 1) exc
           = ''Skipping invalid JSON line '' @ str_nat (length pre + 1) @ '': '' @ exc \<and>
         decimal_value (str_nat (length pre + 1)) = length pre + 1 \<and>
         set (str_nat (length pre + 1)) \<subseteq> set ''0123456789''"
proof -
  have step: "process_line L cfg st n bad = Inr (st\<lparr>stderr := stderr st @ [skip_message n exc]\<rparr>)" for st n
    using assms by (simp add: process_line_def)
  have blank: "process_line L cfg st n [] = Inr st" for st n
    by (simp add: process_line_def strip_def)
  have 1: "iter_turns L cfg (pre @ bad # post) =
           (case iter_lines L cfg initial_state 1 pre of
              Inl err \<Rightarrow> Inl err
            | Inr st \<Rightarrow>
                iter_lines L cfg (st\<lparr>stderr := stderr st @ [skip_message (length pre + 1) exc]\<rparr>)
                  (length pre + 2) post)"
    by (simp add: iter_turns_def iter_lines_append step split: sum.splits)
  have 2: "quiet (iter_turns L cfg (pre @ bad # post)) = quiet (iter_turns L cfg (pre @ [] # post))"
    by (simp add: iter_turns_def iter_lines_append step blank iter_lines_quiet split: sum.splits)
  have 3: "skip_message (length pre + 1) exc \<in> set (stderr res)"
    if "iter_turns L cfg (pre @ bad # post) = Inr res" for res
  proof -
    from that obtain st where "iter_lines L cfg initial_state 1 pre = Inr st"
      and "iter_lines L cfg (st\<lparr>stderr := stderr st @ [skip_message (length pre + 1) exc]\<rparr>)
             (length pre + 2) post = Inr res"
      unfolding 1 by (auto split: sum.splits)
    from iter_lines_stderr_grows [OF this(2)] show ?thesis by simp
  qed
  have 4: "skip_message (length pre + 1) exc
           = ''Skipping invalid JSON line '' @ str_nat (length pre + 1) @ '': '' @ exc"
    by (simp only: skip_message_def)
  from 1 2 3 4 decimal_str_nat [of "length pre + 1"] digits_str_nat [of "length pre + 1"]
  show ?thesis by blast
qed

theorem malformed_line_reported_and_skipped_witness:
  "strip ''not json'' \<noteq> [] \<and>
   loads demo_lib (strip ''not json'') = Inl (JSONDecodeError ''Expecting value'') \<and>
   length [''U'', [], [], [], [], [], [], [], [], [], ''A''] + 1 = 12 \<and>
   (\<exists>res. iter_turns demo_lib plain
             ([''U'', [], [], [], [], [], [], [], [], [], ''A''] @ ''not json'' # [''A'']) = Inr res \<and>
      map body (turns res) = [''hi'', ''hello'', ''hello''] \<and>
      map role (turns res) = [''User'', ''Assistant'', ''Assistant''] \<and>
      stderr res = [''Skipping invalid JSON line 12: Expecting value''] \<and>
      skip_message 12 ''Expecting value'' \<in> set (stderr res)) \<and>
   skip_message 12 ''Expecting value'' = ''Skipping invalid JSON line 12: Expecting value'' \<and>
   str_nat 12 = ''12'' \<and> decimal_value ''12'' = 12 \<and>
   quiet (iter_turns demo_lib plain ([''U'', [], [], [], [], [], [], [], [], [], ''A''] @ ''not json'' # [''A'']))
     = quiet (iter_turns demo_lib plain ([''U'', [], [], [], [], [], [], [], [], [], ''A''] @ [] # [''A'']))"
proof -
  let ?pre = "[''U'', [], [], [], [], [], [], [], [], [], ''A'']"
  have h: "strip ''not json'' \<noteq> []"
    "loads demo_lib (strip ''not json'') = Inl (JSONDecodeError ''Expecting value'')"
    by (simp_all add: run_defs demo_defs)
  have n: "length ?pre + 1 = 12" by simp
  obtain res where run: "iter_turns demo_lib plain (?pre @ ''not json'' # [''A'']) = Inr res"
    and out: "map body (turns res) = [''hi'', ''hello'', ''hello'']"
       "map role (turns res) = [''User'', ''Assistant'', ''Assistant'']"
       "stderr res = [''Skipping invalid JSON line 12: Expecting value'']"
    by (simp add: run_defs demo_defs)
  note th = malformed_line_reported_and_skipped [OF h, of plain ?pre "[''A'']"]
  have q: "quiet (iter_turns demo_lib plain (?pre @ ''not json'' # [''A'']))
     = quiet (iter_turns demo_lib plain (?pre @ [] # [''A'']))"
    using th by blast
  have "skip_message (length ?pre + 1) ''Expecting value'' \<in> set (stderr res)"
    using th run by blast
  then have m: "skip_message 12 ''Expecting value'' \<in> set (stderr res)"
    unfolding n .
  have s: "str_nat 12 = ''12''" by (simp add: digit_char_def)
  from th have "skip_message (length ?pre + 1) ''Expecting value''
      = ''Skipping invalid JSON line '' @ str_nat (length ?pre + 1) @ '': '' @ ''Expecting value''"
    by blast
  then have k: "skip_message 12 ''Expecting value'' = ''Skipping invalid JSON line 12: Expecting value''"
    unfolding n s by simp
  from th have "decimal_value (str_nat (length ?pre + 1)) = length ?pre + 1" by blast
  then have d: "decimal_value ''12'' = 12" unfolding n s .
  show ?thesis by (intro conjI exI [of _ res]) (fact h n run out q m k s d)+
qed

text \<open>
  C5 as stated fails for a line that does not parse as a record in another way: a line
  that decodes to a list, and a line the decoder rejects with \<^verbatim>\<open>ValueError\<close>, end the
  parse with the exception; no diagnostic is printed and the lines after it are not read.
\<close>

theorem undecodable_line_is_fatal:
  "strip ''L'' \<noteq> [] \<and> loads more_lib (strip ''L'') = Inr (JArr [JInt 1, JInt 2]) \<and>
   iter_turns more_lib plain [''U'', ''L'', ''A''] = Inl AttributeError \<and>
   strip ''H'' \<noteq> [] \<and> loads more_lib (strip ''H'') = Inl (OtherError ''ValueError'') \<and>
   iter_turns more_lib plain [''U'', ''H'', ''A''] = Inl (OtherError ''ValueError'')"
  by (simp add: run_defs demo_defs more_defs)

end
